theory Spec2Isabelle
  imports Complex_Main "HOL-Library.Word" "HOL-Library.Sublist"
begin

section \<open>The loopback harness \<open>gps_tx_rx_loopback.py\<close>\<close>

text \<open>
  A shallow embedding of \<open>src/gps_tx_rx_loopback.py\<close>: the file loader
  \<open>load_iq_file\<close>, the two streaming loops \<open>tx_thread_fn\<close> and
  \<open>rx_thread_fn\<close>, and the analysis \<open>fft_xcorr\<close> / \<open>analyze_correlation\<close>.

  Conventions of the embedding.
  \<^item> The module constants of the \<open>USER SETTINGS\<close> block that the modelled functions
    read are the fields of the record \<open>settings\<close>; \<open>user_settings\<close> holds the values
    written in the source.
  \<^item> An exception is a value: a function that can raise returns \<open>py_error + 'a\<close>.
  \<^item> The radio (\<open>tx_stream.send\<close>, \<open>rx_stream.recv\<close>) and the stop event are the
    environment: what they answer is an argument of the model.
  \<^item> numpy's \<open>complex64\<close>/\<open>float64\<close> arithmetic is modelled by exact arithmetic on
    \<open>complex\<close> and \<open>real\<close>; rounding is not modelled.
\<close>

subsection \<open>Settings and errors\<close>

record settings =
  CHUNK_SAMPLES :: nat
  LOOP_FILE :: bool
  CORR_SEARCH_SAMPLES :: nat
  TX_REF_SAMPLES :: nat

definition user_settings :: settings where
  "user_settings =
     \<lparr>CHUNK_SAMPLES = 8192, LOOP_FILE = True,
      CORR_SEARCH_SAMPLES = 1000000, TX_REF_SAMPLES = 100000\<rparr>"

datatype py_error = FileNotFoundError | ValueError | OverflowError

subsection \<open>The transmit loop \<open>tx_thread_fn\<close>\<close>

record TXMetadata =
  start_of_burst :: bool
  end_of_burst :: bool
  has_time_spec :: bool

text \<open>One call \<open>tx_stream.send(chunk, md)\<close>: the chunk and the metadata as they are
  at the call, and whether the call returned (\<open>False\<close>: it raised).\<close>

record send_call =
  chunk :: "complex list"
  call_md :: TXMetadata
  returned :: bool

datatype log_line = TX_sent nat nat nat | TX_thread_exception

record tx_locals =
  md :: TXMetadata
  idx :: nat
  first :: bool
  sent_chunks :: nat
  sends :: "send_call list"
  printed :: "log_line list"

datatype 'a flow = Continue 'a | Break 'a | Raise 'a

text \<open>The body of the \<open>while\<close> loop, lines 66 to 86. \<open>send_raises k\<close> tells whether
  the \<open>k\<close>-th call of \<open>send\<close> in the session (counted from 0) raises.\<close>

definition tx_body :: "settings \<Rightarrow> (nat \<Rightarrow> bool) \<Rightarrow> complex list \<Rightarrow> tx_locals \<Rightarrow> tx_locals flow" where
  "tx_body cfg send_raises iq_data s =
     (let total = length iq_data;
          remaining = int total - int (idx s)
      in if remaining \<le> 0 \<and> \<not> LOOP_FILE cfg then Break s
         else
           let i = (if remaining \<le> 0 then 0 else idx s);
               remaining = (if remaining \<le> 0 then int total else remaining);
               chunk_size = nat (min (int (CHUNK_SAMPLES cfg)) remaining);
               c = take chunk_size (drop i iq_data);
               k = length (sends s);
               s1 = s\<lparr>idx := i,
                      sends := sends s @
                        [\<lparr>chunk = c, call_md = md s, returned = \<not> send_raises k\<rparr>]\<rparr>
           in if send_raises k then Raise s1
              else
                let s2 = (if first s1
                          then s1\<lparr>md := (md s1)\<lparr>start_of_burst := False\<rparr>, first := False\<rparr>
                          else s1);
                    s3 = s2\<lparr>idx := idx s2 + chunk_size, sent_chunks := sent_chunks s2 + 1\<rparr>
                in Continue
                     (if sent_chunks s3 mod 200 = 0
                      then s3\<lparr>printed := printed s3 @ [TX_sent (sent_chunks s3) (idx s3) total]\<rparr>
                      else s3))"

text \<open>The \<open>while not stop_event.is_set()\<close> loop. The event is set once, by \<open>main\<close>,
  and stays set; the first argument is the number of times the loop condition still
  finds it clear. The result says whether the loop was left by an exception.\<close>

fun tx_while :: "settings \<Rightarrow> (nat \<Rightarrow> bool) \<Rightarrow> complex list \<Rightarrow> nat \<Rightarrow> tx_locals \<Rightarrow> bool \<times> tx_locals" where
  "tx_while cfg send_raises iq_data 0 s = (False, s)"
| "tx_while cfg send_raises iq_data (Suc n) s =
     (case tx_body cfg send_raises iq_data s of
        Continue s' \<Rightarrow> tx_while cfg send_raises iq_data n s'
      | Break s' \<Rightarrow> (False, s')
      | Raise s' \<Rightarrow> (True, s'))"

definition tx_init :: tx_locals where
  "tx_init =
     \<lparr>md = \<lparr>start_of_burst = True, end_of_burst = False, has_time_spec = False\<rparr>,
      idx = 0, first = True, sent_chunks = 0, sends = [], printed = []\<rparr>"

text \<open>The whole function: the loop inside \<open>try\<close>, the \<open>except\<close> clause that prints,
  and the \<open>finally\<close> clause that sends the empty end-of-burst chunk and swallows what
  that call raises.\<close>

definition tx_thread_fn :: "settings \<Rightarrow> (nat \<Rightarrow> bool) \<Rightarrow> complex list \<Rightarrow> nat \<Rightarrow> tx_locals" where
  "tx_thread_fn cfg send_raises iq_data stop_after =
     (let (raised, s) = tx_while cfg send_raises iq_data stop_after tx_init;
          s = (if raised then s\<lparr>printed := printed s @ [TX_thread_exception]\<rparr> else s);
          s = s\<lparr>md := (md s)\<lparr>end_of_burst := True\<rparr>\<rparr>;
          k = length (sends s)
      in s\<lparr>sends := sends s @
             [\<lparr>chunk = [], call_md = md s, returned = \<not> send_raises k\<rparr>]\<rparr>)"

text \<open>The data chunks of a session: every \<open>send\<close> call but the final flush.\<close>

definition data_chunks :: "tx_locals \<Rightarrow> complex list list" where
  "data_chunks s = map chunk (butlast (sends s))"

subsection \<open>The receive loop \<open>rx_thread_fn\<close>\<close>

datatype RXMetadataErrorCode =
  none | timeout | late_command | broken_chain | overflow | alignment | bad_packet

text \<open>What one call \<open>rx_stream.recv(buf, md, timeout=2.0)\<close> does: it raises, or it stores
  the samples it got at the start of \<open>buf\<close> (as many as \<open>buf\<close> holds), sets
  \<open>md.error_code\<close> and returns the number of samples stored.\<close>

datatype recv_answer = Recv_raises | Recv_returns "complex list" RXMetadataErrorCode

datatype rx_line = RX_recv_exception | RX_metadata_error RXMetadataErrorCode | RX_samples nat real

text \<open>\<open>fh\<close> is the content of the output file, as the \<open>complex64\<close> samples written to
  it in order; \<open>tobytes\<close> gives \<open>itemsize\<close> bytes for each of them.\<close>

record rx_locals =
  buf :: "complex list"
  error_code :: RXMetadataErrorCode
  fh :: "complex list"
  rx_printed :: "rx_line list"

definition itemsize :: nat where
  "itemsize = 8"

definition file_size :: "complex list \<Rightarrow> nat" where
  "file_size samples = itemsize * length samples"

definition recv_num :: "complex list \<Rightarrow> complex list \<Rightarrow> nat" where
  "recv_num b got = min (length got) (length b)"

definition recv_store :: "complex list \<Rightarrow> complex list \<Rightarrow> complex list" where
  "recv_store b got = take (length b) got @ drop (length got) b"

definition rms_of :: "complex list \<Rightarrow> real" where
  "rms_of xs = sqrt ((\<Sum>x\<leftarrow>xs. (cmod x)\<^sup>2) / real (length xs))"

text \<open>The body of the receive loop, lines 101 to 113.\<close>

definition rx_body :: "recv_answer \<Rightarrow> rx_locals \<Rightarrow> rx_locals" where
  "rx_body answer s =
     (case answer of
        Recv_raises \<Rightarrow> s\<lparr>rx_printed := rx_printed s @ [RX_recv_exception]\<rparr>
      | Recv_returns got code \<Rightarrow>
          let num = recv_num (buf s) got;
              s1 = s\<lparr>buf := recv_store (buf s) got, error_code := code\<rparr>
          in if error_code s1 \<noteq> none
             then s1\<lparr>rx_printed := rx_printed s1 @ [RX_metadata_error (error_code s1)]\<rparr>
             else if num > 0
             then s1\<lparr>fh := fh s1 @ take num (buf s1),
                     rx_printed := rx_printed s1 @ [RX_samples num (rms_of (take num (buf s1)))]\<rparr>
             else s1)"

text \<open>The loop runs once for each answer of \<open>recv\<close> that arrives before the stop
  event is seen set.\<close>

fun rx_while :: "recv_answer list \<Rightarrow> rx_locals \<Rightarrow> rx_locals" where
  "rx_while [] s = s"
| "rx_while (answer # answers) s = rx_while answers (rx_body answer s)"

text \<open>\<open>open(out_filename, "wb")\<close> starts from an empty file.\<close>

definition rx_thread_fn :: "settings \<Rightarrow> recv_answer list \<Rightarrow> rx_locals" where
  "rx_thread_fn cfg answers =
     rx_while answers
       \<lparr>buf = replicate (CHUNK_SAMPLES cfg) 0, error_code = none, fh = [], rx_printed = []\<rparr>"

text \<open>What an iteration contributes to the file according to the answer of \<open>recv\<close>:
  the returned count when there is no exception and no error indicator.\<close>

definition valid_count :: "settings \<Rightarrow> recv_answer \<Rightarrow> nat" where
  "valid_count cfg answer =
     (case answer of
        Recv_raises \<Rightarrow> 0
      | Recv_returns got code \<Rightarrow>
          if code = none then min (length got) (CHUNK_SAMPLES cfg) else 0)"

subsection \<open>The loader \<open>load_iq_file\<close>\<close>

type_synonym byte = "8 word"

text \<open>The file system: the regular, readable files and their bytes.\<close>

type_synonym filesystem = "string \<rightharpoonup> byte list"

text \<open>\<open>np.fromfile\<close> on a binary file reads \<open>size div itemsize\<close> whole items and
  leaves the bytes after them unread.\<close>

definition file_items :: "nat \<Rightarrow> byte list \<Rightarrow> byte list list" where
  "file_items k bytes = map (\<lambda>i. take k (drop (i * k) bytes)) [0 ..< length bytes div k]"

definition le_int16 :: "byte list \<Rightarrow> 16 word" where
  "le_int16 item = word_cat (item ! 1) (item ! 0)"

definition le_bits32 :: "byte list \<Rightarrow> 32 word" where
  "le_bits32 item =
     word_cat (item ! 3) (word_cat (item ! 2) (word_cat (item ! 1) (item ! 0) :: 16 word) :: 24 word)"

text \<open>The value of an IEEE-754 binary32 bit pattern is not modelled: it is the
  argument \<open>f32\<close> of the loader.\<close>

definition fromfile_complex64 :: "(32 word \<Rightarrow> real) \<Rightarrow> byte list \<Rightarrow> complex list" where
  "fromfile_complex64 f32 bytes =
     map (\<lambda>item. Complex (f32 (le_bits32 (take 4 item))) (f32 (le_bits32 (drop 4 item))))
       (file_items 8 bytes)"

definition fromfile_int16 :: "byte list \<Rightarrow> 16 word list" where
  "fromfile_int16 bytes = map le_int16 (file_items 2 bytes)"

text \<open>\<open>raw.reshape(-1, 2)\<close> and the two columns, scaled by \<open>1 / 32768\<close>.\<close>

fun sc16_rows :: "16 word list \<Rightarrow> complex list" where
  "sc16_rows (i # q # raw) =
     Complex (real_of_int (sint i)) (real_of_int (sint q)) / 32768 # sc16_rows raw"
| "sc16_rows raw = []"

definition load_iq_file ::
    "(32 word \<Rightarrow> real) \<Rightarrow> filesystem \<Rightarrow> string \<Rightarrow> string \<Rightarrow> py_error + complex list" where
  "load_iq_file f32 fs path fmt =
     (case fs path of
        None \<Rightarrow> Inl FileNotFoundError
      | Some bytes \<Rightarrow>
          if fmt = ''fc32'' then Inr (fromfile_complex64 f32 bytes)
          else if fmt = ''sc16'' then
            (let raw = fromfile_int16 bytes
             in if length raw mod 2 \<noteq> 0 then Inl ValueError
                else Inr (sc16_rows raw))
          else Inl ValueError)"

text \<open>The start of \<open>main\<close>, lines 163 to 239: the file is loaded first, then the device
  is opened, and only then are the two threads started.\<close>

datatype startup = Exit nat | Streaming "complex list"

definition main_startup ::
    "(32 word \<Rightarrow> real) \<Rightarrow> filesystem \<Rightarrow> string \<Rightarrow> string \<Rightarrow> bool \<Rightarrow> startup" where
  "main_startup f32 fs FILE_PATH FILE_FORMAT usrp_opens =
     (case load_iq_file f32 fs FILE_PATH FILE_FORMAT of
        Inl e \<Rightarrow> Exit 1
      | Inr iq_data \<Rightarrow> if \<not> usrp_opens then Exit 1 else Streaming iq_data)"

subsection \<open>The analysis \<open>fft_xcorr\<close> and \<open>analyze_correlation\<close>\<close>

text \<open>\<open>np.fft.fft(a, n)\<close> crops or zero-pads \<open>a\<close> to \<open>n\<close> samples and returns its discrete
  Fourier transform; \<open>np.fft.ifft\<close> is the inverse transform, scaled by \<open>1 / n\<close>. Both
  are given by their defining sums. (\<open>fft\<close> raises for \<open>n < 1\<close>; \<open>fft_xcorr\<close> only
  calls it with a power of two.)\<close>

definition fft_input :: "complex list \<Rightarrow> nat \<Rightarrow> complex list" where
  "fft_input a n = take n a @ replicate (n - length a) 0"

definition np_fft :: "complex list \<Rightarrow> nat \<Rightarrow> complex list" where
  "np_fft a n =
     map (\<lambda>k. \<Sum>j<n. fft_input a n ! j * cis (- (2 * pi * real j * real k / real n))) [0 ..< n]"

definition np_ifft :: "complex list \<Rightarrow> complex list" where
  "np_ifft X =
     map (\<lambda>m. (\<Sum>k<length X. X ! k * cis (2 * pi * real k * real m / real (length X)))
               / of_nat (length X))
       [0 ..< length X]"

text \<open>Line 118: \<open>np.log2\<close> gives \<open>nan\<close> for a negative argument and \<open>-inf\<close> for 0, and
  \<open>int\<close> raises \<open>ValueError\<close> on the first and \<open>OverflowError\<close> on the second.\<close>

definition fft_xcorr :: "complex list \<Rightarrow> complex list \<Rightarrow> py_error + complex list" where
  "fft_xcorr a b =
     (let na = int (length a);
          nb = int (length b)
      in if na + nb - 1 < 0 then Inl ValueError
         else if na + nb - 1 = 0 then Inl OverflowError
         else
           let n = 2 ^ nat \<lceil>log 2 (real_of_int (na + nb - 1))\<rceil>;
               A = np_fft a n;
               B = np_fft b n;
               corr = np_ifft (map2 (\<lambda>y x. y * cnj x) B A)
           in Inr (take (nat (na + nb - 1)) corr))"

text \<open>\<open>np.argmax\<close>: the first index of the largest entry; it raises on an empty array.\<close>

fun argmax_scan :: "real list \<Rightarrow> nat \<Rightarrow> nat \<Rightarrow> real \<Rightarrow> nat" where
  "argmax_scan [] i best v = best"
| "argmax_scan (x # xs) i best v =
     (if v < x then argmax_scan xs (Suc i) i x else argmax_scan xs (Suc i) best v)"

definition np_argmax :: "real list \<Rightarrow> py_error + nat" where
  "np_argmax xs = (case xs of [] \<Rightarrow> Inl ValueError | x # rest \<Rightarrow> Inr (argmax_scan rest 1 0 x))"

text \<open>A slice \<open>xs[a:b]\<close> with \<open>0 \<le> a\<close> and \<open>0 \<le> b\<close>.\<close>

definition slice :: "'a list \<Rightarrow> nat \<Rightarrow> nat \<Rightarrow> 'a list" where
  "slice xs a b = drop a (take b xs)"

text \<open>The difference of two one-dimensional arrays, with numpy's broadcasting: equal
  lengths, or one of them of length 1; anything else raises \<open>ValueError\<close>.\<close>

definition np_subtract :: "complex list \<Rightarrow> complex list \<Rightarrow> py_error + complex list" where
  "np_subtract xs ys =
     (if length xs = length ys then Inr (map2 (\<lambda>x y. x - y) xs ys)
      else if length ys = 1 then Inr (map (\<lambda>x. x - ys ! 0) xs)
      else if length xs = 1 then Inr (map (\<lambda>y. xs ! 0 - y) ys)
      else Inl ValueError)"

definition energy :: "complex list \<Rightarrow> real" where
  "energy xs = (\<Sum>x\<leftarrow>xs. (cmod x)\<^sup>2)"

record correlation_result =
  peak_index :: int
  lag_samples :: int
  peak_value :: real
  norm_peak :: real
  snr_db_est :: real
  E_tx :: real

text \<open>Lines 137 to 144: the window of \<open>rx\<close> that starts at \<open>max(0, lag)\<close>.\<close>

definition rx_window :: "complex list \<Rightarrow> complex list \<Rightarrow> int \<Rightarrow> complex list" where
  "rx_window tx rx lag =
     (let start = max 0 lag;
          end = start + int (length tx)
      in if end \<le> int (length rx) then slice rx (nat start) (nat end)
         else slice rx (nat start) (length rx))"

text \<open>Lines 148 to 151.\<close>

definition snr_estimate :: "complex list \<Rightarrow> complex list \<Rightarrow> py_error + real" where
  "snr_estimate tx rx_segment =
     (let signal_power = energy rx_segment / real (max 1 (length rx_segment))
      in case np_subtract rx_segment (slice tx 0 (length rx_segment)) of
           Inl e \<Rightarrow> Inl e
         | Inr residual \<Rightarrow>
             let noise_power = energy residual / real (max 1 (length residual))
             in Inr (10 * log 10 (max (1 / 10 ^ 12) (signal_power / (noise_power + 1 / 10 ^ 12)))))"

definition analyze_correlation ::
    "settings \<Rightarrow> complex list \<Rightarrow> complex list \<Rightarrow> py_error + correlation_result" where
  "analyze_correlation cfg tx_samples rx_samples =
     (let tx = slice tx_samples 0 (min (length tx_samples) (TX_REF_SAMPLES cfg));
          rx = slice rx_samples 0 (min (length rx_samples) (CORR_SEARCH_SAMPLES cfg))
      in case fft_xcorr tx rx of
           Inl e \<Rightarrow> Inl e
         | Inr corr \<Rightarrow>
             let abs_corr = map cmod corr
             in case np_argmax abs_corr of
                  Inl e \<Rightarrow> Inl e
                | Inr peak_idx \<Rightarrow>
                    let peak_val = abs_corr ! peak_idx;
                        lag = int peak_idx - (int (length tx) - 1);
                        rx_segment = rx_window tx rx lag;
                        E_rx_seg = energy rx_segment;
                        normp = peak_val / (sqrt (energy tx * (E_rx_seg + 1 / 10 ^ 12)) + 1 / 10 ^ 24)
                    in case snr_estimate tx rx_segment of
                         Inl e \<Rightarrow> Inl e
                       | Inr snr_est \<Rightarrow>
                           Inr \<lparr>peak_index = int peak_idx, lag_samples = lag,
                                peak_value = peak_val, norm_peak = normp,
                                snr_db_est = snr_est, E_tx = energy tx\<rparr>)"

text \<open>The end of \<open>main\<close>, lines 255 to 265: an empty capture is reported and the
  analysis is not called.\<close>

datatype report = No_signal_captured | Summary correlation_result

definition main_report :: "settings \<Rightarrow> complex list \<Rightarrow> complex list \<Rightarrow> py_error + report" where
  "main_report cfg iq_data rx_data =
     (if length rx_data = 0 then Inr No_signal_captured
      else
        let tx_ref = slice iq_data 0 (min (length iq_data) (TX_REF_SAMPLES cfg))
        in case analyze_correlation cfg tx_ref rx_data of
             Inl e \<Rightarrow> Inl e
           | Inr result \<Rightarrow> Inr (Summary result))"

subsection \<open>Invariants of the transmit loop\<close>

text \<open>The chunks handed to \<open>send\<close> so far.\<close>

definition sent_data :: "tx_locals \<Rightarrow> complex list list" where
  "sent_data s = map chunk (sends s)"

text \<open>A pass without looping: what was sent is the buffer up to the cursor, and
  only a chunk that reaches the end of the buffer is shorter than the chunk size.\<close>

definition once_inv :: "nat \<Rightarrow> complex list \<Rightarrow> tx_locals \<Rightarrow> bool" where
  "once_inv C iq s \<longleftrightarrow>
     idx s \<le> length iq \<and> concat (sent_data s) = take (idx s) iq \<and>
     (\<forall>c \<in> set (sent_data s). length c \<le> C) \<and>
     (\<forall>c \<in> set (butlast (sent_data s)). length c = C) \<and>
     (idx s < length iq \<longrightarrow> (\<forall>c \<in> set (sent_data s). length c = C))"

text \<open>Looping: the cursor is the number of samples sent so far, modulo the length of
  the buffer, and the sample at every offset sent so far is the buffer's sample at
  that offset modulo the length.\<close>

definition cyc_inv :: "complex list \<Rightarrow> tx_locals \<Rightarrow> bool" where
  "cyc_inv iq s \<longleftrightarrow>
     idx s \<le> length iq \<and>
     idx s mod length iq = length (concat (sent_data s)) mod length iq \<and>
     (\<forall>g < length (concat (sent_data s)).
        concat (sent_data s) ! g = iq ! (g mod length iq))"

text \<open>The burst flags at the head of the loop: no call has raised, no call carried
  end-of-burst, and start-of-burst was carried by the first call only.\<close>

definition head_inv :: "tx_locals \<Rightarrow> bool" where
  "head_inv s \<longleftrightarrow>
     (first s \<longleftrightarrow> sends s = []) \<and>
     start_of_burst (md s) = first s \<and>
     \<not> end_of_burst (md s) \<and>
     (\<forall>c \<in> set (sends s). returned c \<and> \<not> end_of_burst (call_md c)) \<and>
     (\<forall>k < length (sends s). start_of_burst (call_md (sends s ! k)) \<longleftrightarrow> k = 0) \<and>
     TX_thread_exception \<notin> set (printed s)"

text \<open>How the loop is left: normally, with the invariant, or by a call of \<open>send\<close>
  that raised, made from a state with the invariant.\<close>

definition left_from :: "bool \<Rightarrow> tx_locals \<Rightarrow> tx_locals \<Rightarrow> bool" where
  "left_from raised s0 s \<longleftrightarrow>
     (if raised
      then head_inv s0 \<and> md s = md s0 \<and> printed s = printed s0 \<and>
           sends s = sends s0 @ [\<lparr>chunk = chunk (last (sends s)), call_md = md s0, returned = False\<rparr>]
      else s0 = s \<and> head_inv s)"

subsection \<open>Auxiliary notions for the analysis\<close>

text \<open>The \<open>n\<close>-th roots of unity, indexed by the integers.\<close>

definition unity_root :: "nat \<Rightarrow> int \<Rightarrow> complex" where
  "unity_root n t = cis (2 * pi * real_of_int t / real n)"

subsection \<open>The SNR estimate in the words of the specification\<close>

text \<open>The estimate with the captured window aligned at the lag, as the specification
  words it: the captured sample at index \<open>lag + i\<close> is compared with the reference
  sample at index \<open>i\<close>, for every \<open>i\<close> at which both exist. This definition follows the
  specification, not the source; \<open>snr_estimate\<close> and \<open>rx_window\<close> are the source.\<close>

definition lag_aligned_pairs :: "complex list \<Rightarrow> complex list \<Rightarrow> int \<Rightarrow> (complex \<times> complex) list" where
  "lag_aligned_pairs tx rx lag =
     map (\<lambda>i. (rx ! nat (lag + int i), tx ! i))
       (filter (\<lambda>i. 0 \<le> lag + int i \<and> lag + int i < int (length rx)) [0 ..< length tx])"

definition lag_aligned_snr :: "complex list \<Rightarrow> complex list \<Rightarrow> int \<Rightarrow> real" where
  "lag_aligned_snr tx rx lag =
     (let pairs = lag_aligned_pairs tx rx lag;
          window = map fst pairs;
          residual = map (\<lambda>(c, r). c - r) pairs;
          signal_power = energy window / real (max 1 (length window));
          noise_power = energy residual / real (max 1 (length residual))
      in 10 * log 10 (max (1 / 10 ^ 12) (signal_power / (noise_power + 1 / 10 ^ 12))))"

section \<open>Properties of the transmit loop\<close>

lemma tx_body_Break:
  "length iq \<le> idx s \<Longrightarrow> \<not> LOOP_FILE cfg \<Longrightarrow> tx_body cfg sr iq s = Break s"
  by (simp add: tx_body_def)

lemma chunk_size_nat:
  "nat (min (int C) (if int L - int x \<le> 0 then int L else int L - int x)) =
     min C (L - (if L \<le> x then 0 else x))"
  unfolding min_def by auto

lemma tx_body_Raise:
  assumes "\<not> (length iq \<le> idx s \<and> \<not> LOOP_FILE cfg)" and "sr (length (sends s))"
  shows "\<exists>s'. tx_body cfg sr iq s = Raise s' \<and> md s' = md s \<and> first s' = first s \<and>
           printed s' = printed s \<and>
           sends s' = sends s @
             [\<lparr>chunk = take (min (CHUNK_SAMPLES cfg) (length iq - (if length iq \<le> idx s then 0 else idx s)))
                       (drop (if length iq \<le> idx s then 0 else idx s) iq),
               call_md = md s, returned = False\<rparr>]"
proof -
  have g: "(length iq \<le> idx s \<and> \<not> LOOP_FILE cfg) = False" using assms by simp
  show ?thesis using assms(2) unfolding tx_body_def Let_def chunk_size_nat
    by (simp add: g del: min_less_iff_conj split del: if_split cong: if_cong)
qed


lemma tx_body_Continue:
  assumes "\<not> (length iq \<le> idx s \<and> \<not> LOOP_FILE cfg)" and "\<not> sr (length (sends s))"
  shows "\<exists>s'. tx_body cfg sr iq s = Continue s' \<and>
           md s' = (if first s then (md s)\<lparr>start_of_burst := False\<rparr> else md s) \<and>
           \<not> first s' \<and>
           (TX_thread_exception \<in> set (printed s') \<longleftrightarrow> TX_thread_exception \<in> set (printed s)) \<and>
           idx s' = (if length iq \<le> idx s then 0 else idx s) +
                    min (CHUNK_SAMPLES cfg) (length iq - (if length iq \<le> idx s then 0 else idx s)) \<and>
           sends s' = sends s @
             [\<lparr>chunk = take (min (CHUNK_SAMPLES cfg) (length iq - (if length iq \<le> idx s then 0 else idx s)))
                       (drop (if length iq \<le> idx s then 0 else idx s) iq),
               call_md = md s, returned = True\<rparr>]"
proof (cases "first s")
  have g: "(length iq \<le> idx s \<and> \<not> LOOP_FILE cfg) = False" using assms by simp
  case True
  show ?thesis
  proof (cases "(sent_chunks s + 1) mod 200 = 0")
    case m: True
    show ?thesis using assms True m unfolding tx_body_def Let_def chunk_size_nat
      by (simp add: g del: min_less_iff_conj split del: if_split cong: if_cong)
  next
    case m: False
    show ?thesis using assms True m unfolding tx_body_def Let_def chunk_size_nat
      by (simp add: g del: min_less_iff_conj split del: if_split cong: if_cong)
  qed
next
  have g: "(length iq \<le> idx s \<and> \<not> LOOP_FILE cfg) = False" using assms by simp
  case False
  show ?thesis
  proof (cases "(sent_chunks s + 1) mod 200 = 0")
    case m: True
    show ?thesis using assms False m unfolding tx_body_def Let_def chunk_size_nat
      by (simp add: g del: min_less_iff_conj split del: if_split cong: if_cong)
  next
    case m: False
    show ?thesis using assms False m unfolding tx_body_def Let_def chunk_size_nat
      by (simp add: g del: min_less_iff_conj split del: if_split cong: if_cong)
  qed
qed

lemma tx_body_once:
  assumes nr: "\<forall>k. \<not> send_raises k" and C: "1 \<le> CHUNK_SAMPLES cfg" and nl: "\<not> LOOP_FILE cfg"
    and inv: "once_inv (CHUNK_SAMPLES cfg) iq s"
  shows "(idx s = length iq \<and> tx_body cfg send_raises iq s = Break s) \<or>
         (idx s < length iq \<and> (\<exists>s'. tx_body cfg send_raises iq s = Continue s' \<and>
             once_inv (CHUNK_SAMPLES cfg) iq s' \<and>
             idx s' = min (length iq) (idx s + CHUNK_SAMPLES cfg)))"
proof (cases "idx s = length iq")
  case True
  then show ?thesis using nl by (simp add: tx_body_Break)
next
  case False
  with inv have lt: "idx s < length iq" by (simp add: once_inv_def)
  define n where "n = min (CHUNK_SAMPLES cfg) (length iq - idx s)"
  define c where "c = take n (drop (idx s) iq)"
  have lc: "length c = n" by (simp add: c_def n_def)
  have "\<not> (length iq \<le> idx s \<and> \<not> LOOP_FILE cfg)" using lt by simp
  from tx_body_Continue [where sr = send_raises, OF this] nr lt
  obtain s' where s': "tx_body cfg send_raises iq s = Continue s'"
    and i': "idx s' = idx s + n"
    and d': "sent_data s' = sent_data s @ [c]"
    by (auto simp: sent_data_def c_def n_def)
  have "once_inv (CHUNK_SAMPLES cfg) iq s'"
    using inv lt unfolding once_inv_def i' d'
    by (auto simp: lc n_def c_def take_add min_def)
  moreover have "idx s' = min (length iq) (idx s + CHUNK_SAMPLES cfg)"
    using lt unfolding i' n_def min_def by auto
  ultimately show ?thesis using s' lt by blast
qed

lemma tx_while_once:
  assumes nr: "\<forall>k. \<not> send_raises k" and C: "1 \<le> CHUNK_SAMPLES cfg" and nl: "\<not> LOOP_FILE cfg"
  shows "once_inv (CHUNK_SAMPLES cfg) iq s \<Longrightarrow>
         \<exists>s'. tx_while cfg send_raises iq n s = (False, s') \<and>
              once_inv (CHUNK_SAMPLES cfg) iq s' \<and>
              idx s' = min (length iq) (idx s + n * CHUNK_SAMPLES cfg)"
proof (induction n arbitrary: s)
  case 0
  then show ?case by (simp add: once_inv_def)
next
  case (Suc n)
  from tx_body_once [OF nr C nl Suc.prems]
  show ?case
  proof
    assume "idx s = length iq \<and> tx_body cfg send_raises iq s = Break s"
    then show ?thesis using Suc.prems by simp
  next
    assume "idx s < length iq \<and> (\<exists>s'. tx_body cfg send_raises iq s = Continue s' \<and>
             once_inv (CHUNK_SAMPLES cfg) iq s' \<and>
             idx s' = min (length iq) (idx s + CHUNK_SAMPLES cfg))"
    then obtain s1 where b: "tx_body cfg send_raises iq s = Continue s1"
      and i1: "once_inv (CHUNK_SAMPLES cfg) iq s1"
      and x1: "idx s1 = min (length iq) (idx s + CHUNK_SAMPLES cfg)" by blast
    from Suc.IH [OF i1] obtain s' where
      w: "tx_while cfg send_raises iq n s1 = (False, s')"
      and i': "once_inv (CHUNK_SAMPLES cfg) iq s'"
      and x': "idx s' = min (length iq) (idx s1 + n * CHUNK_SAMPLES cfg)" by blast
    have "idx s' = min (length iq) (idx s + Suc n * CHUNK_SAMPLES cfg)"
      using x' x1 by (simp add: min_def)
    then show ?thesis using b w i' by simp
  qed
qed

lemma tx_body_cyc:
  assumes nr: "\<forall>k. \<not> send_raises k" and C: "1 \<le> CHUNK_SAMPLES cfg" and lp: "LOOP_FILE cfg"
    and ne: "iq \<noteq> []" and inv: "cyc_inv iq s"
  shows "\<exists>s'. tx_body cfg send_raises iq s = Continue s' \<and> cyc_inv iq s' \<and>
           length (concat (sent_data s)) < length (concat (sent_data s'))"
proof -
  define L where "L = length iq"
  define out where "out = concat (sent_data s)"
  have L: "0 < L" using ne by (simp add: L_def)
  define i where "i = (if L \<le> idx s then 0 else idx s)"
  have le: "idx s \<le> L" using inv by (simp add: cyc_inv_def L_def)
  have iL: "i < L" using le L by (simp add: i_def)
  have im: "i = length out mod L"
    using inv le L unfolding cyc_inv_def L_def [symmetric] out_def [symmetric] i_def
    by (auto simp: le_less)
  define n where "n = min (CHUNK_SAMPLES cfg) (L - i)"
  have n1: "1 \<le> n" and nL: "i + n \<le> L" using C iL by (auto simp: n_def)
  define c where "c = take n (drop i iq)"
  have lc: "length c = n" using nL by (simp add: c_def L_def)
  have "\<not> (length iq \<le> idx s \<and> \<not> LOOP_FILE cfg)" using lp by simp
  from tx_body_Continue [where sr = send_raises, OF this] nr
  obtain s' where s': "tx_body cfg send_raises iq s = Continue s'"
    and i': "idx s' = i + n"
    and d': "sent_data s' = sent_data s @ [c]"
    unfolding sent_data_def c_def n_def i_def L_def by auto
  have o': "concat (sent_data s') = out @ c" by (simp add: d' out_def)
  have nth: "(out @ c) ! g = iq ! (g mod L)" if g: "g < length out + n" for g
  proof (cases "g < length out")
    case True
    then show ?thesis using inv
      by (simp add: nth_append cyc_inv_def out_def L_def)
  next
    case False
    define t where "t = g - length out"
    have gt: "g = length out + t" and tn: "t < n" using False g by (auto simp: t_def)
    have "g mod L = (length out mod L + t) mod L" by (simp add: gt mod_add_left_eq)
    also have "\<dots> = i + t" using im tn nL by simp
    finally have gm: "g mod L = i + t" .
    have "(out @ c) ! g = c ! t" using False by (simp add: nth_append t_def)
    also have "\<dots> = iq ! (i + t)" using tn nL by (simp add: c_def L_def)
    finally show ?thesis by (simp add: gm)
  qed
  have "(i + n) mod L = (length out + n) mod L"
    by (metis im mod_add_left_eq)
  then have "cyc_inv iq s'"
    unfolding cyc_inv_def o' i' using nL nth by (simp add: lc L_def)
  moreover have "length (concat (sent_data s)) < length (concat (sent_data s'))"
    using n1 by (simp add: o' lc out_def [symmetric])
  ultimately show ?thesis using s' by blast
qed

lemma tx_while_cyc:
  assumes nr: "\<forall>k. \<not> send_raises k" and C: "1 \<le> CHUNK_SAMPLES cfg" and lp: "LOOP_FILE cfg"
    and ne: "iq \<noteq> []"
  shows "cyc_inv iq s \<Longrightarrow>
         \<exists>s'. tx_while cfg send_raises iq n s = (False, s') \<and> cyc_inv iq s' \<and>
              length (concat (sent_data s)) + n \<le> length (concat (sent_data s'))"
proof (induction n arbitrary: s)
  case 0
  then show ?case by simp
next
  case (Suc n)
  from tx_body_cyc [OF nr C lp ne Suc.prems] obtain s1 where
    b: "tx_body cfg send_raises iq s = Continue s1" and i1: "cyc_inv iq s1"
    and l1: "length (concat (sent_data s)) < length (concat (sent_data s1))" by blast
  from Suc.IH [OF i1] obtain s' where
    w: "tx_while cfg send_raises iq n s1 = (False, s')" and i': "cyc_inv iq s'"
    and l': "length (concat (sent_data s1)) + n \<le> length (concat (sent_data s'))" by blast
  show ?case using b w i' l1 l' by simp
qed

lemma tx_body_head:
  assumes h: "head_inv s"
  shows "case tx_body cfg sr iq s of
           Continue s' \<Rightarrow> head_inv s'
         | Break s' \<Rightarrow> s' = s
         | Raise s' \<Rightarrow> left_from True s s'"
proof (cases "length iq \<le> idx s \<and> \<not> LOOP_FILE cfg")
  case True
  then show ?thesis by (simp add: tx_body_Break)
next
  case False
  show ?thesis
  proof (cases "sr (length (sends s))")
    case True
    from tx_body_Raise [where sr = sr, OF False True] obtain s' where
      b: "tx_body cfg sr iq s = Raise s'" and m: "md s' = md s" and p: "printed s' = printed s"
      and S: "sends s' = sends s @
             [\<lparr>chunk = take (min (CHUNK_SAMPLES cfg) (length iq - (if length iq \<le> idx s then 0 else idx s)))
                       (drop (if length iq \<le> idx s then 0 else idx s) iq),
               call_md = md s, returned = False\<rparr>]" by blast
    have "left_from True s s'" using h m p by (simp add: left_from_def S)
    then show ?thesis by (simp add: b)
  next
    case nr: False
    from tx_body_Continue [where sr = sr, OF False nr] obtain s' where
      b: "tx_body cfg sr iq s = Continue s'"
      and m: "md s' = (if first s then (md s)\<lparr>start_of_burst := False\<rparr> else md s)"
      and f: "\<not> first s'"
      and p: "(TX_thread_exception \<in> set (printed s')) = (TX_thread_exception \<in> set (printed s))"
      and S: "sends s' = sends s @
             [\<lparr>chunk = take (min (CHUNK_SAMPLES cfg) (length iq - (if length iq \<le> idx s then 0 else idx s)))
                       (drop (if length iq \<le> idx s then 0 else idx s) iq),
               call_md = md s, returned = True\<rparr>]" by blast
    have "head_inv s'" using h f p unfolding head_inv_def S m
      by (auto simp: nth_append neq_Nil_conv)
    then show ?thesis by (simp add: b)
  qed
qed

lemma tx_while_head:
  "head_inv s \<Longrightarrow> \<exists>s0. left_from (fst (tx_while cfg sr iq n s)) s0 (snd (tx_while cfg sr iq n s))"
proof (induction n arbitrary: s)
  case 0
  then show ?case by (simp add: left_from_def)
next
  case (Suc n)
  show ?case
  proof (cases "tx_body cfg sr iq s")
    case (Continue s')
    with tx_body_head [OF Suc.prems, of cfg sr iq] have "head_inv s'" by simp
    from Suc.IH [OF this] show ?thesis using Continue by simp
  next
    case (Break s')
    with tx_body_head [OF Suc.prems, of cfg sr iq] have "s' = s" by simp
    then show ?thesis using Break Suc.prems by (auto simp: left_from_def)
  next
    case (Raise s')
    with tx_body_head [OF Suc.prems, of cfg sr iq] have "left_from True s s'" by simp
    then show ?thesis using Raise by auto
  qed
qed

lemma head_inv_init: "head_inv tx_init"
  by (simp add: head_inv_def tx_init_def)

section \<open>Claims about the transmit loop\<close>

lemma sends_thread:
  "sends (tx_thread_fn cfg sr iq n) =
     sends (snd (tx_while cfg sr iq n tx_init)) @
       [\<lparr>chunk = [],
         call_md = (md (snd (tx_while cfg sr iq n tx_init)))\<lparr>end_of_burst := True\<rparr>,
         returned = \<not> sr (length (sends (snd (tx_while cfg sr iq n tx_init))))\<rparr>]"
  by (simp add: tx_thread_fn_def Let_def split: prod.split)

lemma printed_thread:
  "printed (tx_thread_fn cfg sr iq n) =
     printed (snd (tx_while cfg sr iq n tx_init)) @
       (if fst (tx_while cfg sr iq n tx_init) then [TX_thread_exception] else [])"
  by (simp add: tx_thread_fn_def Let_def split: prod.split)

lemma data_chunks_thread:
  "data_chunks (tx_thread_fn cfg sr iq n) = sent_data (snd (tx_while cfg sr iq n tx_init))"
  by (simp add: data_chunks_def sends_thread sent_data_def)

lemma once_inv_init: "once_inv C iq tx_init"
  by (simp add: once_inv_def tx_init_def sent_data_def)

lemma cyc_inv_init: "cyc_inv iq tx_init"
  by (simp add: cyc_inv_def tx_init_def sent_data_def)

text \<open>
  Claim C2, as the code has it. For a buffer of length \<open>L \<ge> 1\<close>, a chunk size
  \<open>C \<ge> 1\<close> and a session in which no call of \<open>send\<close> raises: without looping, when the stop event stays clear for the
  iterations the pass needs (\<open>L \<le> stop_after * C\<close>), the chunks sent before the flush
  concatenate to the buffer, none is longer than \<open>C\<close> and all but the last have length
  \<open>C\<close>; with looping, after any number of iterations the sample at every offset \<open>g\<close>
  sent so far is \<open>iq_data ! (g mod L)\<close>, and every iteration sends at least one sample.
\<close>

theorem chunking_covers_buffer:
  assumes ne: "iq_data \<noteq> []" and C: "1 \<le> CHUNK_SAMPLES cfg" and nr: "\<forall>k. \<not> send_raises k"
  shows "(\<not> LOOP_FILE cfg \<and> length iq_data \<le> stop_after * CHUNK_SAMPLES cfg \<longrightarrow>
            concat (data_chunks (tx_thread_fn cfg send_raises iq_data stop_after)) = iq_data \<and>
            (\<forall>c \<in> set (data_chunks (tx_thread_fn cfg send_raises iq_data stop_after)).
               length c \<le> CHUNK_SAMPLES cfg) \<and>
            (\<forall>c \<in> set (butlast (data_chunks (tx_thread_fn cfg send_raises iq_data stop_after))).
               length c = CHUNK_SAMPLES cfg)) \<and>
         (LOOP_FILE cfg \<longrightarrow>
            stop_after \<le> length (concat (data_chunks (tx_thread_fn cfg send_raises iq_data stop_after))) \<and>
            (\<forall>g < length (concat (data_chunks (tx_thread_fn cfg send_raises iq_data stop_after))).
               concat (data_chunks (tx_thread_fn cfg send_raises iq_data stop_after)) ! g =
               iq_data ! (g mod length iq_data)))"
proof (intro conjI impI)
  assume a: "\<not> LOOP_FILE cfg \<and> length iq_data \<le> stop_after * CHUNK_SAMPLES cfg"
  then have nl: "\<not> LOOP_FILE cfg" by simp
  from tx_while_once [OF nr C nl once_inv_init, of iq_data stop_after]
  obtain s' where w: "tx_while cfg send_raises iq_data stop_after tx_init = (False, s')"
    and inv: "once_inv (CHUNK_SAMPLES cfg) iq_data s'"
    and i: "idx s' = min (length iq_data) (idx tx_init + stop_after * CHUNK_SAMPLES cfg)"
    by blast
  have d: "data_chunks (tx_thread_fn cfg send_raises iq_data stop_after) = sent_data s'"
    by (simp add: data_chunks_thread w)
  have full: "idx s' = length iq_data" using i a by (simp add: tx_init_def)
  show "concat (data_chunks (tx_thread_fn cfg send_raises iq_data stop_after)) = iq_data"
    using inv full by (simp add: d once_inv_def)
  show "\<forall>c \<in> set (data_chunks (tx_thread_fn cfg send_raises iq_data stop_after)).
          length c \<le> CHUNK_SAMPLES cfg"
    using inv by (simp add: d once_inv_def)
  show "\<forall>c \<in> set (butlast (data_chunks (tx_thread_fn cfg send_raises iq_data stop_after))).
          length c = CHUNK_SAMPLES cfg"
    using inv by (simp add: d once_inv_def)
next
  assume lp: "LOOP_FILE cfg"
  from tx_while_cyc [OF nr C lp ne cyc_inv_init, of stop_after]
  obtain s' where w: "tx_while cfg send_raises iq_data stop_after tx_init = (False, s')"
    and inv: "cyc_inv iq_data s'"
    and l: "length (concat (sent_data tx_init)) + stop_after \<le> length (concat (sent_data s'))"
    by blast
  have d: "data_chunks (tx_thread_fn cfg send_raises iq_data stop_after) = sent_data s'"
    by (simp add: data_chunks_thread w)
  show "stop_after \<le> length (concat (data_chunks (tx_thread_fn cfg send_raises iq_data stop_after)))"
    using l by (simp add: d)
  show "\<forall>g < length (concat (data_chunks (tx_thread_fn cfg send_raises iq_data stop_after))).
          concat (data_chunks (tx_thread_fn cfg send_raises iq_data stop_after)) ! g =
          iq_data ! (g mod length iq_data)"
    using inv by (simp add: d cyc_inv_def)
qed


text \<open>Two small sessions, used as concrete inputs below.\<close>

lemma session_once:
  "sends (tx_thread_fn \<lparr>CHUNK_SAMPLES = 2, LOOP_FILE = False, CORR_SEARCH_SAMPLES = 1000000,
            TX_REF_SAMPLES = 100000\<rparr> (\<lambda>k. False) [1, 2, 3] (Suc (Suc 0))) =
     [\<lparr>chunk = [1, 2],
       call_md = \<lparr>start_of_burst = True, end_of_burst = False, has_time_spec = False\<rparr>,
       returned = True\<rparr>,
      \<lparr>chunk = [3],
       call_md = \<lparr>start_of_burst = False, end_of_burst = False, has_time_spec = False\<rparr>,
       returned = True\<rparr>,
      \<lparr>chunk = [],
       call_md = \<lparr>start_of_burst = False, end_of_burst = True, has_time_spec = False\<rparr>,
       returned = True\<rparr>]"
  by (simp add: tx_thread_fn_def tx_body_def tx_init_def Let_def)

lemma session_second_send_raises:
  "tx_thread_fn \<lparr>CHUNK_SAMPLES = 1, LOOP_FILE = False, CORR_SEARCH_SAMPLES = 1000000,
            TX_REF_SAMPLES = 100000\<rparr> (\<lambda>k. k = 1) [1, 2, 3] (Suc (Suc (Suc 0))) =
     \<lparr>md = \<lparr>start_of_burst = False, end_of_burst = True, has_time_spec = False\<rparr>,
      idx = 1, first = False, sent_chunks = 1,
      sends =
        [\<lparr>chunk = [1],
          call_md = \<lparr>start_of_burst = True, end_of_burst = False, has_time_spec = False\<rparr>,
          returned = True\<rparr>,
         \<lparr>chunk = [2],
          call_md = \<lparr>start_of_burst = False, end_of_burst = False, has_time_spec = False\<rparr>,
          returned = False\<rparr>,
         \<lparr>chunk = [],
          call_md = \<lparr>start_of_burst = False, end_of_burst = True, has_time_spec = False\<rparr>,
          returned = True\<rparr>],
      printed = [TX_thread_exception]\<rparr>"
  by (simp add: tx_thread_fn_def tx_body_def tx_init_def Let_def)

text \<open>Claim C2 at a buffer of three samples and chunks of two, in both modes.\<close>

theorem chunking_covers_buffer_witness:
  "data_chunks (tx_thread_fn \<lparr>CHUNK_SAMPLES = 2, LOOP_FILE = False, CORR_SEARCH_SAMPLES = 1000000,
            TX_REF_SAMPLES = 100000\<rparr> (\<lambda>k. False) [1, 2, 3] (Suc (Suc 0))) = [[1, 2], [3]] \<and>
   concat (data_chunks (tx_thread_fn \<lparr>CHUNK_SAMPLES = 2, LOOP_FILE = False,
            CORR_SEARCH_SAMPLES = 1000000, TX_REF_SAMPLES = 100000\<rparr> (\<lambda>k. False) [1, 2, 3]
            (Suc (Suc 0)))) = [1, 2, 3] \<and>
   4 \<le> length (concat (data_chunks (tx_thread_fn \<lparr>CHUNK_SAMPLES = 2, LOOP_FILE = True,
            CORR_SEARCH_SAMPLES = 1000000, TX_REF_SAMPLES = 100000\<rparr> (\<lambda>k. False) [1, 2, 3] 4))) \<and>
   concat (data_chunks (tx_thread_fn \<lparr>CHUNK_SAMPLES = 2, LOOP_FILE = True,
            CORR_SEARCH_SAMPLES = 1000000, TX_REF_SAMPLES = 100000\<rparr> (\<lambda>k. False) [1, 2, 3] 4)) ! 3 = 1"
proof -
  let ?once = "tx_thread_fn \<lparr>CHUNK_SAMPLES = 2, LOOP_FILE = False, CORR_SEARCH_SAMPLES = 1000000,
            TX_REF_SAMPLES = 100000\<rparr> (\<lambda>k. False) [1, 2, 3] (Suc (Suc 0))"
  let ?loop = "tx_thread_fn \<lparr>CHUNK_SAMPLES = 2, LOOP_FILE = True, CORR_SEARCH_SAMPLES = 1000000,
            TX_REF_SAMPLES = 100000\<rparr> (\<lambda>k. False) [1, 2, 3] 4"
  have v: "data_chunks ?once = [[1, 2], [3]]"
    unfolding data_chunks_def session_once by simp
  have o: "concat (data_chunks ?once) = [1, 2, 3]"
    using chunking_covers_buffer [of "[1, 2, 3]" "\<lparr>CHUNK_SAMPLES = 2, LOOP_FILE = False,
            CORR_SEARCH_SAMPLES = 1000000, TX_REF_SAMPLES = 100000\<rparr>" "\<lambda>k. False" "Suc (Suc 0)"]
    by simp
  have l: "4 \<le> length (concat (data_chunks ?loop)) \<and>
           (\<forall>g < length (concat (data_chunks ?loop)).
              concat (data_chunks ?loop) ! g = [1, 2, 3] ! (g mod length [1, 2, 3::complex]))"
    using chunking_covers_buffer [of "[1, 2, 3]" "\<lparr>CHUNK_SAMPLES = 2, LOOP_FILE = True,
            CORR_SEARCH_SAMPLES = 1000000, TX_REF_SAMPLES = 100000\<rparr>" "\<lambda>k. False" 4]
    by simp
  then have "3 < length (concat (data_chunks ?loop))" by simp
  with l have "concat (data_chunks ?loop) ! 3 = [1, 2, 3] ! (3 mod length [1, 2, 3::complex])"
    by blast
  then have "concat (data_chunks ?loop) ! 3 = 1" by simp
  with v o l show ?thesis by blast
qed

text \<open>
  Claim C2 as stated, with no condition on \<open>send\<close>, fails: the buffer has three samples,
  the chunk size is 1, there is no looping and the stop event stays clear for three
  iterations, but the first \<open>send\<close> raises and the loop is left; the chunks handed to
  \<open>send\<close> before the flush concatenate to \<open>[1]\<close>, not to the buffer.
\<close>

theorem chunking_counterexample:
  "concat (data_chunks (tx_thread_fn \<lparr>CHUNK_SAMPLES = 1, LOOP_FILE = False,
      CORR_SEARCH_SAMPLES = 1000000, TX_REF_SAMPLES = 100000\<rparr> (\<lambda>k. k = 0) [1, 2, 3]
      (Suc (Suc (Suc 0))))) = [1] \<and>
   concat (data_chunks (tx_thread_fn \<lparr>CHUNK_SAMPLES = 1, LOOP_FILE = False,
      CORR_SEARCH_SAMPLES = 1000000, TX_REF_SAMPLES = 100000\<rparr> (\<lambda>k. k = 0) [1, 2, 3]
      (Suc (Suc (Suc 0))))) \<noteq> [1, 2, 3]"
  by (simp add: data_chunks_def tx_thread_fn_def tx_body_def tx_init_def Let_def)

lemma thread_left_from:
  "\<exists>s0. left_from (fst (tx_while cfg sr iq n tx_init)) s0 (snd (tx_while cfg sr iq n tx_init))"
  by (rule tx_while_head [OF head_inv_init])

lemma nth_flags_append:
  "k < length (s0 @ [c, f]) \<Longrightarrow>
     (s0 @ [c, f]) ! k = (if k < length s0 then s0 ! k else if k = length s0 then c else f)"
  by (auto simp: nth_append less_Suc_eq)

text \<open>
  Claim C3, as the code has it. In every session, whatever ends the loop (the stop
  event, the end of the buffer, an exception of \<open>send\<close>): the last call of \<open>send\<close> is
  the empty flush chunk with end-of-burst set, and no earlier call has that flag; the
  first call has start-of-burst set; a later call has it exactly when it is the flush
  that follows a first data call that raised.
\<close>

theorem burst_flags:
  "sends (tx_thread_fn cfg send_raises iq_data stop_after) \<noteq> [] \<and>
   chunk (last (sends (tx_thread_fn cfg send_raises iq_data stop_after))) = [] \<and>
   end_of_burst (call_md (last (sends (tx_thread_fn cfg send_raises iq_data stop_after)))) \<and>
   (\<forall>k < length (sends (tx_thread_fn cfg send_raises iq_data stop_after)) - 1.
      \<not> end_of_burst (call_md (sends (tx_thread_fn cfg send_raises iq_data stop_after) ! k))) \<and>
   start_of_burst (call_md (sends (tx_thread_fn cfg send_raises iq_data stop_after) ! 0)) \<and>
   (\<forall>k < length (sends (tx_thread_fn cfg send_raises iq_data stop_after)). 0 < k \<longrightarrow>
      start_of_burst (call_md (sends (tx_thread_fn cfg send_raises iq_data stop_after) ! k)) =
      (length (sends (tx_thread_fn cfg send_raises iq_data stop_after)) = 2 \<and>
       \<not> returned (sends (tx_thread_fn cfg send_raises iq_data stop_after) ! 0)))"
proof -
  define r where "r = fst (tx_while cfg send_raises iq_data stop_after tx_init)"
  define s where "s = snd (tx_while cfg send_raises iq_data stop_after tx_init)"
  define f where "f = \<lparr>chunk = [], call_md = (md s)\<lparr>end_of_burst := True\<rparr>,
                        returned = \<not> send_raises (length (sends s))\<rparr>"
  have S: "sends (tx_thread_fn cfg send_raises iq_data stop_after) = sends s @ [f]"
    by (simp add: sends_thread s_def f_def)
  from thread_left_from obtain s0 where l: "left_from r s0 s"
    unfolding r_def s_def by blast
  show ?thesis
  proof (cases r)
    case False
    with l have h: "head_inv s" by (simp add: left_from_def)
    show ?thesis
    proof (cases "sends s = []")
      case True
      with h show ?thesis unfolding S by (simp add: f_def head_inv_def)
    next
      case ne: False
      with h show ?thesis unfolding S
        by (auto simp: f_def head_inv_def nth_append neq_Nil_conv less_Suc_eq)
    qed
  next
    case True
    with l obtain c where h: "head_inv s0" and m: "md s = md s0"
      and e: "sends s = sends s0 @ [c]" and c: "call_md c = md s0" "\<not> returned c"
      by (auto simp: left_from_def)
    have S2: "sends (tx_thread_fn cfg send_raises iq_data stop_after) = sends s0 @ [c, f]"
      by (simp add: S e)
    show ?thesis
    proof (cases "sends s0 = []")
      case True
      with h c show ?thesis unfolding S2 by (simp add: f_def head_inv_def m)
    next
      case ne: False
      with h c show ?thesis unfolding S2
        by (auto simp: f_def head_inv_def m nth_append neq_Nil_conv less_Suc_eq)
    qed
  qed
qed

text \<open>Claim C3 at a session whose second data call raises.\<close>

theorem burst_flags_witness:
  "start_of_burst (call_md (sends (tx_thread_fn \<lparr>CHUNK_SAMPLES = 1, LOOP_FILE = False,
      CORR_SEARCH_SAMPLES = 1000000, TX_REF_SAMPLES = 100000\<rparr> (\<lambda>k. k = 1) [1, 2, 3]
      (Suc (Suc (Suc 0)))) ! 0)) \<and>
   \<not> start_of_burst (call_md (sends (tx_thread_fn \<lparr>CHUNK_SAMPLES = 1, LOOP_FILE = False,
      CORR_SEARCH_SAMPLES = 1000000, TX_REF_SAMPLES = 100000\<rparr> (\<lambda>k. k = 1) [1, 2, 3]
      (Suc (Suc (Suc 0)))) ! 1)) \<and>
   \<not> start_of_burst (call_md (sends (tx_thread_fn \<lparr>CHUNK_SAMPLES = 1, LOOP_FILE = False,
      CORR_SEARCH_SAMPLES = 1000000, TX_REF_SAMPLES = 100000\<rparr> (\<lambda>k. k = 1) [1, 2, 3]
      (Suc (Suc (Suc 0)))) ! 2)) \<and>
   \<not> end_of_burst (call_md (sends (tx_thread_fn \<lparr>CHUNK_SAMPLES = 1, LOOP_FILE = False,
      CORR_SEARCH_SAMPLES = 1000000, TX_REF_SAMPLES = 100000\<rparr> (\<lambda>k. k = 1) [1, 2, 3]
      (Suc (Suc (Suc 0)))) ! 1)) \<and>
   length (sends (tx_thread_fn \<lparr>CHUNK_SAMPLES = 1, LOOP_FILE = False,
      CORR_SEARCH_SAMPLES = 1000000, TX_REF_SAMPLES = 100000\<rparr> (\<lambda>k. k = 1) [1, 2, 3]
      (Suc (Suc (Suc 0))))) = 3"
proof -
  let ?S = "sends (tx_thread_fn \<lparr>CHUNK_SAMPLES = 1, LOOP_FILE = False,
      CORR_SEARCH_SAMPLES = 1000000, TX_REF_SAMPLES = 100000\<rparr> (\<lambda>k. k = 1) [1, 2, 3]
      (Suc (Suc (Suc 0))))"
  have len: "length ?S = 3" unfolding session_second_send_raises by simp
  note b = burst_flags [of "\<lparr>CHUNK_SAMPLES = 1, LOOP_FILE = False,
      CORR_SEARCH_SAMPLES = 1000000, TX_REF_SAMPLES = 100000\<rparr>" "\<lambda>k. k = 1" "[1, 2, 3]"
      "Suc (Suc (Suc 0))"]
  from b have sob: "\<forall>k < length ?S. 0 < k \<longrightarrow>
      start_of_burst (call_md (?S ! k)) = (length ?S = 2 \<and> \<not> returned (?S ! 0))"
    and eob: "\<forall>k < length ?S - 1. \<not> end_of_burst (call_md (?S ! k))"
    and s0: "start_of_burst (call_md (?S ! 0))" by blast+
  from sob [rule_format, of 1] len have "\<not> start_of_burst (call_md (?S ! 1))" by simp
  moreover from sob [rule_format, of 2] len have "\<not> start_of_burst (call_md (?S ! 2))" by simp
  moreover from eob [rule_format, of 1] len have "\<not> end_of_burst (call_md (?S ! 1))" by simp
  ultimately show ?thesis using s0 len by blast
qed

text \<open>
  Claim C3 as stated fails when the first data call raises: start-of-burst is cleared
  only after \<open>send\<close> returns, so the flush carries it again. Here both calls raise: two
  calls carry start-of-burst, and no chunk at all was accepted by \<open>send\<close>.
\<close>

theorem burst_flags_counterexample:
  "sends (tx_thread_fn user_settings (\<lambda>k. True) [1] (Suc 0)) =
     [\<lparr>chunk = [1],
       call_md = \<lparr>start_of_burst = True, end_of_burst = False, has_time_spec = False\<rparr>,
       returned = False\<rparr>,
      \<lparr>chunk = [],
       call_md = \<lparr>start_of_burst = True, end_of_burst = True, has_time_spec = False\<rparr>,
       returned = False\<rparr>] \<and>
   length (filter (\<lambda>c. start_of_burst (call_md c))
     (sends (tx_thread_fn user_settings (\<lambda>k. True) [1] (Suc 0)))) = 2 \<and>
   filter returned (sends (tx_thread_fn user_settings (\<lambda>k. True) [1] (Suc 0))) = []"
  by (simp add: tx_thread_fn_def tx_body_def tx_init_def Let_def user_settings_def)

text \<open>
  Claim C5, as the code has it. The \<open>try\<close> encloses the whole loop: a data call of
  \<open>send\<close> that raises is the last data call of the session (the next call is the flush),
  the exception is printed, and the flush chunk with end-of-burst is still sent.
\<close>

theorem send_failure_ends_loop:
  "(\<forall>k. k + 1 < length (sends (tx_thread_fn cfg send_raises iq_data stop_after)) \<longrightarrow>
        \<not> returned (sends (tx_thread_fn cfg send_raises iq_data stop_after) ! k) \<longrightarrow>
        k + 2 = length (sends (tx_thread_fn cfg send_raises iq_data stop_after)) \<and>
        TX_thread_exception \<in> set (printed (tx_thread_fn cfg send_raises iq_data stop_after))) \<and>
   chunk (last (sends (tx_thread_fn cfg send_raises iq_data stop_after))) = [] \<and>
   end_of_burst (call_md (last (sends (tx_thread_fn cfg send_raises iq_data stop_after))))"
proof -
  define r where "r = fst (tx_while cfg send_raises iq_data stop_after tx_init)"
  define s where "s = snd (tx_while cfg send_raises iq_data stop_after tx_init)"
  define f where "f = \<lparr>chunk = [], call_md = (md s)\<lparr>end_of_burst := True\<rparr>,
                        returned = \<not> send_raises (length (sends s))\<rparr>"
  have S: "sends (tx_thread_fn cfg send_raises iq_data stop_after) = sends s @ [f]"
    by (simp add: sends_thread s_def f_def)
  have P: "printed (tx_thread_fn cfg send_raises iq_data stop_after) =
             printed s @ (if r then [TX_thread_exception] else [])"
    by (simp add: printed_thread s_def r_def)
  from thread_left_from obtain s0 where l: "left_from r s0 s"
    unfolding r_def s_def by blast
  show ?thesis
  proof (cases r)
    case False
    with l have h: "head_inv s" by (simp add: left_from_def)
    then have "\<forall>k < length (sends s). returned (sends s ! k)" by (simp add: head_inv_def)
    then show ?thesis unfolding S by (simp add: f_def nth_append)
  next
    case True
    with l obtain c where h: "head_inv s0" and e: "sends s = sends s0 @ [c]"
      by (auto simp: left_from_def)
    from h have "\<forall>k < length (sends s0). returned (sends s0 ! k)" by (simp add: head_inv_def)
    then show ?thesis unfolding S P e using True
      by (auto simp: f_def nth_append)
  qed
qed

text \<open>Claim C5 at a session whose second data call raises.\<close>

theorem send_failure_ends_loop_witness:
  "\<not> returned (sends (tx_thread_fn \<lparr>CHUNK_SAMPLES = 1, LOOP_FILE = False,
      CORR_SEARCH_SAMPLES = 1000000, TX_REF_SAMPLES = 100000\<rparr> (\<lambda>k. k = 1) [1, 2, 3]
      (Suc (Suc (Suc 0)))) ! 1) \<and>
   1 + 2 = length (sends (tx_thread_fn \<lparr>CHUNK_SAMPLES = 1, LOOP_FILE = False,
      CORR_SEARCH_SAMPLES = 1000000, TX_REF_SAMPLES = 100000\<rparr> (\<lambda>k. k = 1) [1, 2, 3]
      (Suc (Suc (Suc 0))))) \<and>
   TX_thread_exception \<in> set (printed (tx_thread_fn \<lparr>CHUNK_SAMPLES = 1, LOOP_FILE = False,
      CORR_SEARCH_SAMPLES = 1000000, TX_REF_SAMPLES = 100000\<rparr> (\<lambda>k. k = 1) [1, 2, 3]
      (Suc (Suc (Suc 0)))))"
proof -
  let ?T = "tx_thread_fn \<lparr>CHUNK_SAMPLES = 1, LOOP_FILE = False,
      CORR_SEARCH_SAMPLES = 1000000, TX_REF_SAMPLES = 100000\<rparr> (\<lambda>k. k = 1) [1, 2, 3]
      (Suc (Suc (Suc 0)))"
  have a: "1 + 1 < length (sends ?T)" and b: "\<not> returned (sends ?T ! 1)"
    unfolding session_second_send_raises by simp_all
  from send_failure_ends_loop [of "\<lparr>CHUNK_SAMPLES = 1, LOOP_FILE = False,
      CORR_SEARCH_SAMPLES = 1000000, TX_REF_SAMPLES = 100000\<rparr>" "\<lambda>k. k = 1" "[1, 2, 3]"
      "Suc (Suc (Suc 0))"]
  have "1 + 1 < length (sends ?T) \<longrightarrow> \<not> returned (sends ?T ! 1) \<longrightarrow>
        1 + 2 = length (sends ?T) \<and> TX_thread_exception \<in> set (printed ?T)"
    by blast
  with a b show ?thesis by blast
qed

text \<open>
  Claim C5 as stated fails: with three chunks to send, no looping and the stop event
  clear for three iterations, an exception of the first \<open>send\<close> leaves the loop with
  the cursor still at 0; the chunks \<open>[2]\<close> and \<open>[3]\<close> that the undisturbed session
  sends are never sent.
\<close>

theorem send_failure_counterexample:
  "fst (tx_while \<lparr>CHUNK_SAMPLES = 1, LOOP_FILE = False, CORR_SEARCH_SAMPLES = 1000000,
          TX_REF_SAMPLES = 100000\<rparr> (\<lambda>k. k = 0) [1, 2, 3] (Suc (Suc (Suc 0))) tx_init) \<and>
   idx (snd (tx_while \<lparr>CHUNK_SAMPLES = 1, LOOP_FILE = False, CORR_SEARCH_SAMPLES = 1000000,
          TX_REF_SAMPLES = 100000\<rparr> (\<lambda>k. k = 0) [1, 2, 3] (Suc (Suc (Suc 0))) tx_init)) = 0 \<and>
   data_chunks (tx_thread_fn \<lparr>CHUNK_SAMPLES = 1, LOOP_FILE = False, CORR_SEARCH_SAMPLES = 1000000,
          TX_REF_SAMPLES = 100000\<rparr> (\<lambda>k. k = 0) [1, 2, 3] (Suc (Suc (Suc 0)))) = [[1]] \<and>
   data_chunks (tx_thread_fn \<lparr>CHUNK_SAMPLES = 1, LOOP_FILE = False, CORR_SEARCH_SAMPLES = 1000000,
          TX_REF_SAMPLES = 100000\<rparr> (\<lambda>k. False) [1, 2, 3] (Suc (Suc (Suc 0)))) = [[1], [2], [3]]"
  by (simp add: data_chunks_def tx_thread_fn_def tx_body_def tx_init_def Let_def)

section \<open>Claims about the receive loop\<close>

lemma length_recv_store: "length (recv_store b got) = length b"
  by (simp add: recv_store_def)

lemma rx_body_buf: "length (buf (rx_body answer s)) = length (buf s)"
  by (simp add: rx_body_def Let_def length_recv_store split: recv_answer.split)

lemma rx_body_fh:
  "length (buf s) = CHUNK_SAMPLES cfg \<Longrightarrow>
   \<exists>new. fh (rx_body answer s) = fh s @ new \<and> length new = valid_count cfg answer"
  by (auto simp: rx_body_def Let_def valid_count_def recv_num_def length_recv_store
           split: recv_answer.split)

lemma rx_while_fh:
  "length (buf s) = CHUNK_SAMPLES cfg \<Longrightarrow>
   \<exists>new. fh (rx_while answers s) = fh s @ new \<and>
         length new = (\<Sum>a\<leftarrow>answers. valid_count cfg a)"
proof (induction answers arbitrary: s)
  case Nil
  then show ?case by simp
next
  case (Cons a answers)
  from rx_body_fh [OF Cons.prems, of a] obtain n1 where
    1: "fh (rx_body a s) = fh s @ n1" "length n1 = valid_count cfg a" by blast
  have "length (buf (rx_body a s)) = CHUNK_SAMPLES cfg"
    using Cons.prems by (simp add: rx_body_buf)
  from Cons.IH [OF this] obtain n2 where
    2: "fh (rx_while answers (rx_body a s)) = fh (rx_body a s) @ n2"
       "length n2 = (\<Sum>a\<leftarrow>answers. valid_count cfg a)" by blast
  show ?case using 1 2 by simp
qed

lemma rx_while_append: "rx_while (xs @ ys) s = rx_while ys (rx_while xs s)"
  by (induction xs arbitrary: s) simp_all

lemma rx_while_buf: "length (buf (rx_while answers s)) = length (buf s)"
  by (induction answers arbitrary: s) (simp_all add: rx_body_buf)

text \<open>
  Claim C7. After the loop has run on any sequence of answers of \<open>recv\<close>, the size of
  the capture file in bytes is the sample size times the sum of the counts returned by
  the iterations that neither raised nor set an error indicator; an iteration with an
  error indicator leaves the file as it was whatever count it returned, as does one
  whose \<open>recv\<close> raised; and the file after the first \<open>N\<close> iterations is a prefix of the
  file after all of them.
\<close>

theorem capture_sink_append_only:
  "file_size (fh (rx_thread_fn cfg answers)) =
     itemsize * (\<Sum>a\<leftarrow>answers. valid_count cfg a) \<and>
   (\<forall>N. prefix (fh (rx_thread_fn cfg (take N answers))) (fh (rx_thread_fn cfg answers))) \<and>
   (code \<noteq> none \<longrightarrow> fh (rx_body (Recv_returns got code) s) = fh s) \<and>
   fh (rx_body Recv_raises s) = fh s"
proof (intro conjI allI impI)
  let ?s0 = "\<lparr>buf = replicate (CHUNK_SAMPLES cfg) 0, error_code = none, fh = [],
              rx_printed = []\<rparr>"
  have b0: "length (buf ?s0) = CHUNK_SAMPLES cfg" by simp
  from rx_while_fh [OF b0, of answers] 
  show "file_size (fh (rx_thread_fn cfg answers)) =
          itemsize * (\<Sum>a\<leftarrow>answers. valid_count cfg a)"
    by (auto simp: rx_thread_fn_def file_size_def)
  fix N
  have "length (buf (rx_while (take N answers) ?s0)) = CHUNK_SAMPLES cfg"
    by (simp add: rx_while_buf)
  from rx_while_fh [OF this, of "drop N answers"]
  have "prefix (fh (rx_while (take N answers) ?s0))
          (fh (rx_while (drop N answers) (rx_while (take N answers) ?s0)))"
    by (auto simp: prefix_def)
  then have "prefix (fh (rx_while (take N answers) ?s0)) (fh (rx_while (take N answers @ drop N answers) ?s0))"
    by (simp only: rx_while_append)
  then show "prefix (fh (rx_thread_fn cfg (take N answers))) (fh (rx_thread_fn cfg answers))"
    by (simp add: rx_thread_fn_def)
next
  assume "code \<noteq> none"
  then show "fh (rx_body (Recv_returns got code) s) = fh s"
    by (simp add: rx_body_def Let_def)
next
  show "fh (rx_body Recv_raises s) = fh s" by (simp add: rx_body_def)
qed

text \<open>Claim C7 at five iterations: two good ones, an overflow that returned two
  samples, an exception and a timeout.\<close>

theorem capture_sink_append_only_witness:
  "file_size (fh (rx_thread_fn (user_settings\<lparr>CHUNK_SAMPLES := 2\<rparr>)
      [Recv_returns [1, 2] none, Recv_returns [3, 4] overflow, Recv_raises,
       Recv_returns [] timeout, Recv_returns [5] none])) = 8 * (2 + 0 + 0 + 0 + 1) \<and>
   fh (rx_thread_fn (user_settings\<lparr>CHUNK_SAMPLES := 2\<rparr>)
      [Recv_returns [1, 2] none, Recv_returns [3, 4] overflow, Recv_raises,
       Recv_returns [] timeout, Recv_returns [5] none]) = [1, 2, 5] \<and>
   fh (rx_body (Recv_returns [3, 4] overflow)
        \<lparr>buf = [1, 2], error_code = none, fh = [1, 2], rx_printed = []\<rparr>) = [1, 2]"
proof -
  let ?cfg = "user_settings\<lparr>CHUNK_SAMPLES := 2\<rparr>"
  let ?as = "[Recv_returns [1, 2] none, Recv_returns [3, 4] overflow, Recv_raises,
       Recv_returns [] timeout, Recv_returns [5] none]"
  note t = capture_sink_append_only [of ?cfg ?as overflow "[3, 4]"
      "\<lparr>buf = [1, 2], error_code = none, fh = [1, 2], rx_printed = []\<rparr>"]
  have n: "overflow \<noteq> none" by simp
  from t n have 3: "fh (rx_body (Recv_returns [3, 4] overflow)
        \<lparr>buf = [1, 2], error_code = none, fh = [1, 2], rx_printed = []\<rparr>) = [1, 2]"
    by simp
  from t have "file_size (fh (rx_thread_fn ?cfg ?as)) =
     itemsize * (\<Sum>a\<leftarrow>?as. valid_count ?cfg a)" by blast
  then have 1: "file_size (fh (rx_thread_fn ?cfg ?as)) = 8 * (2 + 0 + 0 + 0 + 1)"
    by (simp add: valid_count_def itemsize_def user_settings_def)
  have 2: "fh (rx_thread_fn ?cfg ?as) = [1, 2, 5]"
    by (simp add: rx_thread_fn_def rx_body_def recv_num_def recv_store_def Let_def user_settings_def)
  from 1 2 3 show ?thesis by blast
qed

section \<open>Claims about the loader\<close>

lemma length_file_items: "length (file_items k bytes) = length bytes div k"
  by (simp add: file_items_def)

lemma length_sc16_rows: "length (sc16_rows raw) = length raw div 2"
  by (induction raw rule: sc16_rows.induct) simp_all

lemma file_items_whole:
  "file_items k (take (k * (length bytes div k)) bytes) = file_items k bytes"
proof (cases "k = 0")
  case True
  then show ?thesis by (simp add: file_items_def)
next
  case False
  define q where "q = length bytes div k"
  have le: "k * q \<le> length bytes" by (simp add: q_def)
  have len: "length (take (k * q) bytes) div k = q" using le False by (simp add: min_def)
  have "take k (drop (i * k) (take (k * q) bytes)) = take k (drop (i * k) bytes)" if "i < q" for i
  proof -
    from that have "Suc i \<le> q" by simp
    then have "Suc i * k \<le> q * k" by (rule mult_le_mono1)
    then have "k \<le> k * q - i * k" by (simp add: mult.commute)
    then show ?thesis by (simp add: drop_take min_def)
  qed
  then show ?thesis unfolding file_items_def q_def [symmetric] len by simp
qed

text \<open>
  Claim C9. \<open>load_iq_file\<close> raises \<open>FileNotFoundError\<close> when the path is missing. For an
  existing file and the format \<open>sc16\<close> it raises \<open>ValueError\<close> exactly when the file holds
  an odd number of 16-bit values, and otherwise returns one sample for each pair of
  values; for an existing file and the format \<open>fc32\<close> it returns a buffer. Whenever the
  loader raises, \<open>main\<close> exits with status 1 before the device is opened and before the
  two threads are started.
\<close>

theorem load_errors:
  "(fs path = None \<longrightarrow> load_iq_file f32 fs path fmt = Inl FileNotFoundError) \<and>
   (fs path = Some bytes \<longrightarrow>
      (load_iq_file f32 fs path ''sc16'' = Inl ValueError \<longleftrightarrow> odd (length bytes div 2)) \<and>
      (even (length bytes div 2) \<longrightarrow>
         (\<exists>iq. load_iq_file f32 fs path ''sc16'' = Inr iq \<and> length iq = length bytes div 4)) \<and>
      (\<exists>iq. load_iq_file f32 fs path ''fc32'' = Inr iq)) \<and>
   (load_iq_file f32 fs path fmt = Inl e \<longrightarrow> main_startup f32 fs path fmt usrp_opens = Exit 1)"
proof (intro conjI impI)
  assume "fs path = None"
  then show "load_iq_file f32 fs path fmt = Inl FileNotFoundError"
    by (simp add: load_iq_file_def)
next
  assume b: "fs path = Some bytes"
  have n: "length (fromfile_int16 bytes) = length bytes div 2"
    by (simp add: fromfile_int16_def length_file_items)
  show "(load_iq_file f32 fs path ''sc16'' = Inl ValueError) = odd (length bytes div 2)"
    using b by (simp add: load_iq_file_def Let_def n odd_iff_mod_2_eq_one)
  show "\<exists>iq. load_iq_file f32 fs path ''fc32'' = Inr iq"
    using b by (simp add: load_iq_file_def)
  assume "even (length bytes div 2)"
  then show "\<exists>iq. load_iq_file f32 fs path ''sc16'' = Inr iq \<and> length iq = length bytes div 4"
    using b by (simp add: load_iq_file_def Let_def n length_sc16_rows div_mult2_eq even_iff_mod_2_eq_zero)
next
  assume "load_iq_file f32 fs path fmt = Inl e"
  then show "main_startup f32 fs path fmt usrp_opens = Exit 1"
    by (simp add: main_startup_def)
qed

text \<open>
  Claim C10. For an existing file and the format \<open>fc32\<close> the loader makes no length
  check and never raises: it returns \<open>size div 8\<close> samples, the ones it returns for the
  file cut down to its whole 8-byte items.
\<close>

theorem fc32_no_length_check:
  "fs path = Some bytes \<longrightarrow>
     (\<exists>iq. load_iq_file f32 fs path ''fc32'' = Inr iq \<and> length iq = length bytes div 8) \<and>
     load_iq_file f32 fs path ''fc32'' =
       Inr (fromfile_complex64 f32 (take (8 * (length bytes div 8)) bytes))"
  by (simp add: load_iq_file_def fromfile_complex64_def length_file_items file_items_whole)

text \<open>Claim C9 at a missing path, at a file of three 16-bit values, and at a file of
  two (the sample \<open>0.5 - 0.5j\<close>).\<close>

theorem load_errors_witness:
  "load_iq_file (\<lambda>w. 0) [''gpssim.bin'' \<mapsto> [1, 0, 2, 0, 3, 0]] ''missing.bin'' ''sc16'' =
     Inl FileNotFoundError \<and>
   load_iq_file (\<lambda>w. 0) [''gpssim.bin'' \<mapsto> [1, 0, 2, 0, 3, 0]] ''gpssim.bin'' ''sc16'' =
     Inl ValueError \<and>
   main_startup (\<lambda>w. 0) [''gpssim.bin'' \<mapsto> [1, 0, 2, 0, 3, 0]] ''gpssim.bin'' ''sc16'' True =
     Exit 1 \<and>
   load_iq_file (\<lambda>w. 0) [''gpssim.bin'' \<mapsto> [0, 64, 0, 192]] ''gpssim.bin'' ''sc16'' =
     Inr [Complex (1 / 2) (- 1 / 2)]"
proof -
  let ?fs = "[''gpssim.bin'' \<mapsto> [1, 0, 2, 0, 3, 0 :: byte]]"
  have 1: "load_iq_file (\<lambda>w. 0) ?fs ''missing.bin'' ''sc16'' = Inl FileNotFoundError"
    using load_errors [of ?fs "''missing.bin''" "\<lambda>w. 0" "''sc16''"] by simp
  have 2: "load_iq_file (\<lambda>w. 0) ?fs ''gpssim.bin'' ''sc16'' = Inl ValueError"
    using load_errors [of ?fs "''gpssim.bin''" "\<lambda>w. 0" "''sc16''" "[1, 0, 2, 0, 3, 0]"] by simp
  have 3: "main_startup (\<lambda>w. 0) ?fs ''gpssim.bin'' ''sc16'' True = Exit 1"
    using load_errors [of ?fs "''gpssim.bin''" "\<lambda>w. 0" "''sc16''" "[1, 0, 2, 0, 3, 0]" ValueError True] 2
    by simp
  have 4: "load_iq_file (\<lambda>w. 0) [''gpssim.bin'' \<mapsto> [0, 64, 0, 192]] ''gpssim.bin'' ''sc16'' =
     Inr [Complex (1 / 2) (- 1 / 2)]"
    by (simp add: load_iq_file_def fromfile_int16_def file_items_def le_int16_def Let_def
          word_cat_eq upt_rec complex_eq_iff)
  from 1 2 3 4 show ?thesis by blast
qed

text \<open>Claim C10 at a file of nine bytes: one sample, the ninth byte is dropped.\<close>

theorem fc32_no_length_check_witness:
  "load_iq_file (\<lambda>w. 0) [''gpssim.bin'' \<mapsto> [0, 0, 128, 63, 0, 0, 0, 0, 7]] ''gpssim.bin'' ''fc32'' =
     Inr (fromfile_complex64 (\<lambda>w. 0) [0, 0, 128, 63, 0, 0, 0, 0]) \<and>
   length (fromfile_complex64 (\<lambda>w. 0) [0, 0, 128, 63, 0, 0, 0, 0]) = 1"
proof -
  let ?bytes = "[0, 0, 128, 63, 0, 0, 0, 0, 7 :: byte]"
  from fc32_no_length_check [of "[''gpssim.bin'' \<mapsto> ?bytes]" "''gpssim.bin''" ?bytes "\<lambda>w. 0"]
  have "load_iq_file (\<lambda>w. 0) [''gpssim.bin'' \<mapsto> ?bytes] ''gpssim.bin'' ''fc32'' =
          Inr (fromfile_complex64 (\<lambda>w. 0) (take (8 * (length ?bytes div 8)) ?bytes))"
    by simp
  moreover have "take (8 * (length ?bytes div 8)) ?bytes = [0, 0, 128, 63, 0, 0, 0, 0]"
    by simp
  moreover have "length (fromfile_complex64 (\<lambda>w. 0) [0, 0, 128, 63, 0, 0, 0, 0 :: byte]) = 1"
    by (simp add: fromfile_complex64_def file_items_def)
  ultimately show ?thesis by simp
qed

section \<open>The transform-domain correlation\<close>

lemma unity_root_add: "unity_root n (s + t) = unity_root n s * unity_root n t"
  by (simp add: unity_root_def cis_mult add_divide_distrib distrib_left)

lemma unity_root_neg: "unity_root n (- t) = cnj (unity_root n t)"
  by (simp add: unity_root_def cis_cnj)

lemma unity_root_power: "unity_root n (int q * d) = unity_root n d ^ q"
  by (simp add: unity_root_def DeMoivre mult_ac)

lemma unity_root_eq_1_iff:
  assumes "0 < n"
  shows "unity_root n d = 1 \<longleftrightarrow> int n dvd d"
proof
  assume "unity_root n d = 1"
  then have "cos (2 * pi * real_of_int d / real n) = 1"
    by (simp add: unity_root_def complex_eq_iff)
  then obtain j :: int where j: "2 * pi * real_of_int d / real n = real_of_int j * 2 * pi"
    by (auto simp: cos_one_2pi_int)
  then have "(2 * pi) * (real_of_int d / real n) = (2 * pi) * real_of_int j"
    by (simp add: mult_ac)
  then have "real_of_int d / real n = real_of_int j"
    by (simp only: mult_cancel_left) simp
  then have "real_of_int d = real_of_int (j * int n)" using assms by (simp add: field_simps)
  then have "d = j * int n" by (simp only: of_int_eq_iff)
  then show "int n dvd d" by simp
next
  assume "int n dvd d"
  then obtain j where "d = int n * j" by (auto simp: dvd_def)
  then have "2 * pi * real_of_int d / real n = 2 * pi * real_of_int j" using assms by simp
  then show "unity_root n d = 1" by (simp add: unity_root_def)
qed

lemma unity_root_period: "0 < n \<Longrightarrow> unity_root n d ^ n = 1"
proof -
  assume "0 < n"
  then have "real n * (2 * pi * real_of_int d / real n) = 2 * pi * real_of_int d" by simp
  then show ?thesis by (simp add: unity_root_def DeMoivre)
qed

lemma unity_root_sum:
  assumes "0 < n"
  shows "(\<Sum>q<n. unity_root n (int q * d)) = (if int n dvd d then of_nat n else 0)"
proof -
  have "(\<Sum>q<n. unity_root n (int q * d)) = (\<Sum>q<n. unity_root n d ^ q)"
    by (simp add: unity_root_power)
  also have "\<dots> = (if unity_root n d = 1 then of_nat n else (1 - unity_root n d ^ n) / (1 - unity_root n d))"
    by (rule sum_gp_strict)
  also have "\<dots> = (if int n dvd d then of_nat n else 0)"
    using assms by (simp add: unity_root_eq_1_iff unity_root_period)
  finally show ?thesis .
qed

lemma length_np_fft: "length (np_fft a n) = n"
  by (simp add: np_fft_def)

lemma np_fft_nth:
  "k < n \<Longrightarrow> np_fft a n ! k = (\<Sum>j<n. fft_input a n ! j * unity_root n (- (int j * int k)))"
  by (simp add: np_fft_def unity_root_def mult.assoc)

lemma np_ifft_nth:
  "m < length X \<Longrightarrow>
   np_ifft X ! m = (\<Sum>k<length X. X ! k * unity_root (length X) (int k * int m)) / of_nat (length X)"
  by (simp add: np_ifft_def unity_root_def mult.assoc)

lemma dvd_shift_iff:
  assumes "0 < n" and "p < n"
  shows "int n dvd (int j + int m - int p) \<longleftrightarrow> p = (j + m) mod n"
proof -
  have "int n dvd (int j + int m - int p) \<longleftrightarrow> (int j + int m) mod int n = int p mod int n"
    by (simp add: mod_eq_dvd_iff)
  also have "\<dots> \<longleftrightarrow> int ((j + m) mod n) = int p"
    using assms by (simp add: zmod_int)
  also have "\<dots> \<longleftrightarrow> p = (j + m) mod n" by auto
  finally show ?thesis .
qed

lemma xcorr_circular:
  assumes n: "0 < n" and m: "m < n"
  shows "np_ifft (map2 (\<lambda>y x. y * cnj x) (np_fft b n) (np_fft a n)) ! m =
           (\<Sum>j<n. cnj (fft_input a n ! j) * fft_input b n ! ((j + m) mod n))"
proof -
  define A where "A j = fft_input a n ! j" for j
  define B where "B p = fft_input b n ! p" for p
  define w where "w = unity_root n"
  define Z where "Z = map2 (\<lambda>y x. y * cnj x) (np_fft b n) (np_fft a n)"
  have lZ: "length Z = n" by (simp add: Z_def length_np_fft)
  have w3: "w (- (int p * int q)) * w (int j * int q) * w (int q * int m) =
            w (int q * (int j + int m - int p))" for p q j
    unfolding w_def unity_root_add [symmetric] by (simp add: algebra_simps)
  have Zq: "Z ! q * w (int q * int m) =
            (\<Sum>j<n. \<Sum>p<n. cnj (A j) * B p * w (int q * (int j + int m - int p)))"
    if q: "q < n" for q
  proof -
    have "Z ! q = (\<Sum>p<n. B p * w (- (int p * int q))) * cnj (\<Sum>j<n. A j * w (- (int j * int q)))"
      using q by (simp add: Z_def length_np_fft np_fft_nth A_def B_def w_def)
    also have "cnj (\<Sum>j<n. A j * w (- (int j * int q))) = (\<Sum>j<n. cnj (A j) * w (int j * int q))"
      by (simp add: w_def unity_root_neg)
    finally have "Z ! q * w (int q * int m) =
        (\<Sum>j<n. cnj (A j) * w (int j * int q)) * (\<Sum>p<n. B p * w (- (int p * int q))) *
          w (int q * int m)"
      by (simp add: mult.commute)
    also have "\<dots> = (\<Sum>j<n. \<Sum>p<n. cnj (A j) * w (int j * int q) * (B p * w (- (int p * int q))) *
          w (int q * int m))"
      by (simp only: sum_distrib_left sum_distrib_right) (rule sum.swap)
    also have "\<dots> = (\<Sum>j<n. \<Sum>p<n. cnj (A j) * B p *
          (w (- (int p * int q)) * w (int j * int q) * w (int q * int m)))"
      by (simp add: mult_ac)
    finally show ?thesis by (simp only: w3)
  qed
  have inner: "(\<Sum>p<n. cnj (A j) * B p * (\<Sum>q<n. w (int q * (int j + int m - int p)))) =
               cnj (A j) * B ((j + m) mod n) * of_nat n" for j
  proof -
    have "(\<Sum>p<n. cnj (A j) * B p * (\<Sum>q<n. w (int q * (int j + int m - int p)))) =
          (\<Sum>p<n. if p = (j + m) mod n then cnj (A j) * B p * of_nat n else 0)"
      by (rule sum.cong) (simp_all add: w_def unity_root_sum [OF n] dvd_shift_iff [OF n])
    also have "\<dots> = cnj (A j) * B ((j + m) mod n) * of_nat n"
      using n by (simp add: sum.delta')
    finally show ?thesis .
  qed
  have "(\<Sum>q<n. Z ! q * w (int q * int m)) =
        (\<Sum>q<n. \<Sum>j<n. \<Sum>p<n. cnj (A j) * B p * w (int q * (int j + int m - int p)))"
    by (rule sum.cong) (simp_all add: Zq)
  also have "\<dots> = (\<Sum>j<n. \<Sum>q<n. \<Sum>p<n. cnj (A j) * B p * w (int q * (int j + int m - int p)))"
    by (rule sum.swap)
  also have "\<dots> = (\<Sum>j<n. \<Sum>p<n. \<Sum>q<n. cnj (A j) * B p * w (int q * (int j + int m - int p)))"
    by (rule sum.cong [OF refl]) (rule sum.swap)
  also have "\<dots> = (\<Sum>j<n. \<Sum>p<n. cnj (A j) * B p * (\<Sum>q<n. w (int q * (int j + int m - int p))))"
    by (simp add: sum_distrib_left)
  also have "\<dots> = (\<Sum>j<n. cnj (A j) * B ((j + m) mod n) * of_nat n)"
    by (simp only: inner)
  also have "\<dots> = (\<Sum>j<n. cnj (A j) * B ((j + m) mod n)) * of_nat n"
    by (simp add: sum_distrib_right)
  finally have "(\<Sum>q<n. Z ! q * w (int q * int m)) / of_nat n =
                (\<Sum>j<n. cnj (A j) * B ((j + m) mod n))"
    using n by simp
  then show ?thesis
    using m by (simp add: np_ifft_nth lZ Z_def [symmetric] w_def A_def B_def)
qed

section \<open>Lemmas about the analysis\<close>

lemma ceil_log2_le_iff:
  assumes "1 \<le> M"
  shows "nat \<lceil>log 2 (real M)\<rceil> \<le> k \<longleftrightarrow> M \<le> 2 ^ k"
proof -
  have pos: "0 < real M" using assms by simp
  have "nat \<lceil>log 2 (real M)\<rceil> \<le> k \<longleftrightarrow> \<lceil>log 2 (real M)\<rceil> \<le> int k"
    by (simp only: nat_le_iff)
  also have "\<dots> \<longleftrightarrow> log 2 (real M) \<le> real k"
    by (simp only: ceiling_le_iff of_int_of_nat_eq)
  also have "\<dots> \<longleftrightarrow> log 2 (real M) \<le> log 2 (2 ^ k)" by simp
  also have "\<dots> \<longleftrightarrow> real M \<le> 2 ^ k" using pos by (subst log_le_cancel_iff) simp_all
  also have "\<dots> \<longleftrightarrow> M \<le> 2 ^ k" by (metis of_nat_le_iff of_nat_numeral of_nat_power)
  finally show ?thesis .
qed

lemma fft_len_ge: "1 \<le> M \<Longrightarrow> M \<le> 2 ^ nat \<lceil>log 2 (real M)\<rceil>"
  using ceil_log2_le_iff [of M "nat \<lceil>log 2 (real M)\<rceil>"] by blast

lemma fft_len_least: "1 \<le> M \<Longrightarrow> M \<le> 2 ^ k \<Longrightarrow> (2::nat) ^ nat \<lceil>log 2 (real M)\<rceil> \<le> 2 ^ k"
  using ceil_log2_le_iff [of M k] power_increasing_iff [of "2::nat" "nat \<lceil>log 2 (real M)\<rceil>" k]
  by simp

lemma fft_len_eq:
  assumes "1 \<le> M" and "M \<le> 2 ^ k" and "k = 0 \<or> 2 ^ (k - 1) < M"
  shows "nat \<lceil>log 2 (real M)\<rceil> = k"
proof (rule antisym)
  show "nat \<lceil>log 2 (real M)\<rceil> \<le> k"
    using assms(1,2) ceil_log2_le_iff [of M k] by blast
  show "k \<le> nat \<lceil>log 2 (real M)\<rceil>"
  proof (cases "k = 0")
    case True
    then show ?thesis by simp
  next
    case False
    with assms have "\<not> M \<le> 2 ^ (k - 1)" by auto
    then have "\<not> nat \<lceil>log 2 (real M)\<rceil> \<le> k - 1"
      using assms(1) ceil_log2_le_iff [of M "k - 1"] by blast
    then show ?thesis by linarith
  qed
qed

lemma argmax_scan_spec:
  "best < length pre \<Longrightarrow> pre ! best = v \<Longrightarrow> \<forall>j < length pre. pre ! j \<le> v \<Longrightarrow>
   \<forall>j < best. pre ! j < v \<Longrightarrow>
   argmax_scan xs (length pre) best v < length (pre @ xs) \<and>
   (\<forall>j < length (pre @ xs). (pre @ xs) ! j \<le> (pre @ xs) ! argmax_scan xs (length pre) best v) \<and>
   (\<forall>j < argmax_scan xs (length pre) best v.
      (pre @ xs) ! j < (pre @ xs) ! argmax_scan xs (length pre) best v)"
proof (induction xs arbitrary: pre best v)
  case Nil
  then show ?case by simp
next
  case (Cons x xs)
  show ?case
  proof (cases "v < x")
    case True
    have "argmax_scan xs (length (pre @ [x])) (length pre) x < length ((pre @ [x]) @ xs) \<and>
      (\<forall>j < length ((pre @ [x]) @ xs). ((pre @ [x]) @ xs) ! j \<le>
          ((pre @ [x]) @ xs) ! argmax_scan xs (length (pre @ [x])) (length pre) x) \<and>
      (\<forall>j < argmax_scan xs (length (pre @ [x])) (length pre) x.
          ((pre @ [x]) @ xs) ! j < ((pre @ [x]) @ xs) ! argmax_scan xs (length (pre @ [x])) (length pre) x)"
      using Cons.prems True
      by (intro Cons.IH) (auto simp: nth_append less_Suc_eq intro: less_imp_le le_less_trans)
    then show ?thesis using True by simp
  next
    case False
    have "argmax_scan xs (length (pre @ [x])) best v < length ((pre @ [x]) @ xs) \<and>
      (\<forall>j < length ((pre @ [x]) @ xs). ((pre @ [x]) @ xs) ! j \<le>
          ((pre @ [x]) @ xs) ! argmax_scan xs (length (pre @ [x])) best v) \<and>
      (\<forall>j < argmax_scan xs (length (pre @ [x])) best v.
          ((pre @ [x]) @ xs) ! j < ((pre @ [x]) @ xs) ! argmax_scan xs (length (pre @ [x])) best v)"
      using Cons.prems False
      by (intro Cons.IH) (auto simp: nth_append less_Suc_eq)
    then show ?thesis using False by simp
  qed
qed

lemma np_argmax_spec:
  assumes "xs \<noteq> []"
  shows "\<exists>p. np_argmax xs = Inr p \<and> p < length xs \<and> (\<forall>j < length xs. xs ! j \<le> xs ! p) \<and>
             (\<forall>j < p. xs ! j < xs ! p)"
proof -
  from assms obtain x rest where xs: "xs = x # rest" by (cases xs) auto
  from argmax_scan_spec [of 0 "[x]" x rest]
  show ?thesis by (simp add: xs np_argmax_def)
qed

lemma fft_xcorr_small:
  "length a + length b = 0 \<Longrightarrow> fft_xcorr a b = Inl ValueError"
  "length a + length b = 1 \<Longrightarrow> fft_xcorr a b = Inl OverflowError"
  by (simp_all add: fft_xcorr_def Let_def)

lemma fft_xcorr_Inr:
  assumes "2 \<le> length a + length b"
  shows "fft_xcorr a b =
     Inr (take (length a + length b - 1)
       (np_ifft (map2 (\<lambda>y x. y * cnj x)
          (np_fft b (2 ^ nat \<lceil>log 2 (real (length a + length b - 1))\<rceil>))
          (np_fft a (2 ^ nat \<lceil>log 2 (real (length a + length b - 1))\<rceil>)))))"
proof -
  have n: "nat (int (length a) + int (length b) - 1) = length a + length b - 1"
    using assms by linarith
  show ?thesis unfolding fft_xcorr_def Let_def using assms n by simp
qed

lemma length_np_ifft: "length (np_ifft X) = length X"
  by (simp add: np_ifft_def)

lemma fft_xcorr_nth:
  assumes "2 \<le> length a + length b"
  shows "\<exists>corr. fft_xcorr a b = Inr corr \<and> length corr = length a + length b - 1 \<and>
     (\<forall>k < length a + length b - 1. corr ! k =
        (\<Sum>j < 2 ^ nat \<lceil>log 2 (real (length a + length b - 1))\<rceil>.
           cnj (fft_input a (2 ^ nat \<lceil>log 2 (real (length a + length b - 1))\<rceil>) ! j) *
           fft_input b (2 ^ nat \<lceil>log 2 (real (length a + length b - 1))\<rceil>) !
             ((j + k) mod 2 ^ nat \<lceil>log 2 (real (length a + length b - 1))\<rceil>)))"
proof -
  define m where "m = length a + length b - 1"
  define n :: nat where "n = 2 ^ nat \<lceil>log 2 (real m)\<rceil>"
  define Z where "Z = np_ifft (map2 (\<lambda>y x. y * cnj x) (np_fft b n) (np_fft a n))"
  have m1: "1 \<le> m" using assms by (simp add: m_def)
  have mn: "m \<le> n" unfolding n_def by (rule fft_len_ge [OF m1])
  have n0: "0 < n" by (simp add: n_def)
  have lZ: "length Z = n" by (simp add: Z_def length_np_ifft length_np_fft)
  have x: "fft_xcorr a b = Inr (take m Z)"
    unfolding m_def Z_def n_def by (rule fft_xcorr_Inr [OF assms])
  have "take m Z ! k = (\<Sum>j<n. cnj (fft_input a n ! j) * fft_input b n ! ((j + k) mod n))"
    if "k < m" for k
  proof -
    from that mn have "k < n" by simp
    from xcorr_circular [OF n0 this, of b a] that show ?thesis by (simp add: Z_def)
  qed
  then show ?thesis using x mn lZ unfolding m_def [symmetric] n_def [symmetric] by simp
qed

lemma length_rx_window: "length (rx_window tx rx lag) \<le> length tx"
  by (auto simp: rx_window_def slice_def Let_def)

lemma rx_window_eq: "rx_window tx rx lag = take (length tx) (drop (nat (max 0 lag)) rx)"
proof -
  define s where "s = nat (max 0 lag)"
  have e: "nat (max 0 lag + int (length tx)) = s + length tx" by (simp add: s_def nat_add_distrib)
  have c: "max 0 lag + int (length tx) \<le> int (length rx) \<longleftrightarrow> s + length tx \<le> length rx"
    unfolding s_def by linarith
  show ?thesis unfolding rx_window_def Let_def slice_def e c s_def [symmetric]
    by (auto simp: drop_take take_all)
qed

lemma snr_estimate_Inr:
  assumes "length seg \<le> length tx"
  shows "snr_estimate tx seg =
     Inr (10 * log 10 (max (1 / 10 ^ 12)
       ((energy seg / real (max 1 (length seg))) /
        (energy (map2 (\<lambda>x y. x - y) seg (take (length seg) tx)) / real (max 1 (length seg))
           + 1 / 10 ^ 12))))"
  using assms by (simp add: snr_estimate_def np_subtract_def slice_def Let_def min_def)

lemma slice0: "slice xs 0 (min (length xs) c) = take c xs"
  by (simp add: slice_def min_def)

lemma analyze_unfold:
  assumes "2 \<le> length (take (TX_REF_SAMPLES cfg) tx_samples) +
                length (take (CORR_SEARCH_SAMPLES cfg) rx_samples)"
  shows "\<exists>corr p v.
     fft_xcorr (take (TX_REF_SAMPLES cfg) tx_samples) (take (CORR_SEARCH_SAMPLES cfg) rx_samples) =
       Inr corr \<and>
     np_argmax (map cmod corr) = Inr p \<and> p < length corr \<and>
     snr_estimate (take (TX_REF_SAMPLES cfg) tx_samples)
       (rx_window (take (TX_REF_SAMPLES cfg) tx_samples)
                  (take (CORR_SEARCH_SAMPLES cfg) rx_samples)
                  (int p - (int (length (take (TX_REF_SAMPLES cfg) tx_samples)) - 1))) = Inr v \<and>
     analyze_correlation cfg tx_samples rx_samples =
       Inr \<lparr>peak_index = int p,
            lag_samples = int p - (int (length (take (TX_REF_SAMPLES cfg) tx_samples)) - 1),
            peak_value = cmod (corr ! p),
            norm_peak = cmod (corr ! p) /
              (sqrt (energy (take (TX_REF_SAMPLES cfg) tx_samples) *
                 (energy (rx_window (take (TX_REF_SAMPLES cfg) tx_samples)
                            (take (CORR_SEARCH_SAMPLES cfg) rx_samples)
                            (int p - (int (length (take (TX_REF_SAMPLES cfg) tx_samples)) - 1)))
                  + 1 / 10 ^ 12)) + 1 / 10 ^ 24),
            snr_db_est = v,
            E_tx = energy (take (TX_REF_SAMPLES cfg) tx_samples)\<rparr>"
proof -
  define tx where "tx = take (TX_REF_SAMPLES cfg) tx_samples"
  define rx where "rx = take (CORR_SEARCH_SAMPLES cfg) rx_samples"
  from fft_xcorr_nth [of tx rx] assms obtain corr where
    c: "fft_xcorr tx rx = Inr corr" and l: "length corr = length tx + length rx - 1"
    unfolding tx_def rx_def by blast
  have "map cmod corr \<noteq> []" using l assms unfolding tx_def rx_def by auto
  from np_argmax_spec [OF this] obtain p where
    p: "np_argmax (map cmod corr) = Inr p" "p < length corr" by auto
  define lag where "lag = int p - (int (length tx) - 1)"
  from snr_estimate_Inr [OF length_rx_window, of tx rx lag] obtain v where
    s: "snr_estimate tx (rx_window tx rx lag) = Inr v" by blast
  have "analyze_correlation cfg tx_samples rx_samples =
       Inr \<lparr>peak_index = int p, lag_samples = lag, peak_value = cmod (corr ! p),
            norm_peak = cmod (corr ! p) /
              (sqrt (energy tx * (energy (rx_window tx rx lag) + 1 / 10 ^ 12)) + 1 / 10 ^ 24),
            snr_db_est = v,
            E_tx = energy tx\<rparr>"
    unfolding analyze_correlation_def slice0 tx_def [symmetric] rx_def [symmetric] Let_def c
    using p s by (simp add: lag_def [symmetric])
  then show ?thesis using c p s unfolding tx_def rx_def lag_def by blast
qed

lemma fft_input_long: "length a \<le> n \<Longrightarrow> fft_input a n = a @ replicate (n - length a) 0"
  by (simp add: fft_input_def)

lemma fft_input_beyond: "length a \<le> j \<Longrightarrow> j < n \<Longrightarrow> fft_input a n ! j = 0"
  by (simp add: fft_input_def nth_append)

lemma fft_input_within: "j < length a \<Longrightarrow> j < n \<Longrightarrow> fft_input a n ! j = a ! j"
  by (simp add: fft_input_def nth_append)

lemma fft_xcorr_direct:
  assumes a: "a \<noteq> []" and b: "b \<noteq> []"
  shows "\<exists>corr. fft_xcorr a b = Inr corr \<and> length corr = length a + length b - 1 \<and>
     (\<forall>k < length a + length b - 1. corr ! k =
        (\<Sum>j < length a. cnj (a ! j) *
           (b @ replicate (2 ^ nat \<lceil>log 2 (real (length a + length b - 1))\<rceil> - length b) 0) !
             ((j + k) mod 2 ^ nat \<lceil>log 2 (real (length a + length b - 1))\<rceil>)))"
proof -
  define m where "m = length a + length b - 1"
  define n :: nat where "n = 2 ^ nat \<lceil>log 2 (real m)\<rceil>"
  have la: "0 < length a" and lb: "0 < length b" using a b by simp_all
  then have two: "2 \<le> length a + length b" by linarith
  have m1: "1 \<le> m" using two by (simp add: m_def)
  have mn: "m \<le> n" unfolding n_def by (rule fft_len_ge [OF m1])
  have an: "length a \<le> n" and bn: "length b \<le> n"
    using mn la lb unfolding m_def by linarith+
  from fft_xcorr_nth [OF two] obtain corr where
    c: "fft_xcorr a b = Inr corr" and l: "length corr = m"
    and v: "\<forall>k<m. corr ! k = (\<Sum>j<n. cnj (fft_input a n ! j) * fft_input b n ! ((j + k) mod n))"
    unfolding m_def [symmetric] n_def [symmetric] by blast
  have "corr ! k = (\<Sum>j < length a. cnj (a ! j) * (b @ replicate (n - length b) 0) ! ((j + k) mod n))"
    if k: "k < m" for k
  proof -
    have "corr ! k = (\<Sum>j<n. cnj (fft_input a n ! j) * fft_input b n ! ((j + k) mod n))"
      using v k by blast
    also have "\<dots> = (\<Sum>j<length a. cnj (fft_input a n ! j) * fft_input b n ! ((j + k) mod n))"
      using an by (intro sum.mono_neutral_right) (auto simp: fft_input_beyond)
    also have "\<dots> = (\<Sum>j<length a. cnj (a ! j) * (b @ replicate (n - length b) 0) ! ((j + k) mod n))"
      unfolding fft_input_long [OF bn] using an
      by (intro sum.cong refl) (simp add: fft_input_within)
    finally show ?thesis .
  qed
  then show ?thesis using c l unfolding m_def n_def by blast
qed

lemma fft_xcorr_list:
  assumes a: "a \<noteq> []" and b: "b \<noteq> []" and le: "length a + length b - 1 \<le> 2 ^ k"
    and gt: "k = 0 \<or> 2 ^ (k - 1) < length a + length b - 1"
  shows "fft_xcorr a b =
     Inr (map (\<lambda>i. \<Sum>j\<leftarrow>[0 ..< length a].
                 cnj (a ! j) * (b @ replicate (2 ^ k - length b) 0) ! ((j + i) mod 2 ^ k))
           [0 ..< length a + length b - 1])"
proof -
  have "1 \<le> length a + length b - 1" using a b by (cases a; cases b) simp_all
  from fft_len_eq [OF this le gt]
  have n: "nat \<lceil>log 2 (real (length a + length b - 1))\<rceil> = k" .
  from fft_xcorr_direct [OF a b] obtain corr where
    c: "fft_xcorr a b = Inr corr" and l: "length corr = length a + length b - 1"
    and v: "\<forall>i < length a + length b - 1. corr ! i =
        (\<Sum>j < length a. cnj (a ! j) * (b @ replicate (2 ^ k - length b) 0) ! ((j + i) mod 2 ^ k))"
    unfolding n by blast
  have "corr = map (\<lambda>i. \<Sum>j\<leftarrow>[0 ..< length a].
                 cnj (a ! j) * (b @ replicate (2 ^ k - length b) 0) ! ((j + i) mod 2 ^ k))
           [0 ..< length a + length b - 1]"
    using l v by (intro nth_equalityI) (simp_all add: interv_sum_list_conv_sum_set_nat lessThan_atLeast0)
  then show ?thesis using c by simp
qed

section \<open>The analysis at concrete buffers\<close>

lemma upt_small:
  "[0..<1] = [0]" "[0..<2] = [0, 1]" "[0..<3] = [0, 1, 2]" "[0..<5] = [0, 1, 2, 3, 4]"
  "[0..<6] = [0, 1, 2, 3, 4, 5]"
  by (simp_all add: upt_rec)

lemma replicate_small:
  "replicate 2 (0::complex) = [0, 0]" "replicate 4 (0::complex) = [0, 0, 0, 0]"
  "replicate 5 (0::complex) = [0, 0, 0, 0, 0]"
  by (simp_all add: eval_nat_numeral)

lemma xcorr_ones: "fft_xcorr [1, 1, 1] [1, 1, 1] = Inr [3, 2, 1, 0, 0]"
  using fft_xcorr_list [of "[1, 1, 1]" "[1, 1, 1]" 3]
  by (simp add: upt_small replicate_small)

lemma xcorr_ones_delayed: "fft_xcorr [1, 1, 1] [0, 1, 1, 1] = Inr [2, 3, 2, 1, 0, 0]"
  using fft_xcorr_list [of "[1, 1, 1]" "[0, 1, 1, 1]" 3]
  by (simp add: upt_small replicate_small)

lemma xcorr_swapped: "fft_xcorr [1, 2] [2, 1] = Inr [4, 1, 0]"
  using fft_xcorr_list [of "[1, 2]" "[2, 1]" 2]
  by (simp add: upt_small replicate_small)

lemma xcorr_single: "fft_xcorr [1] [0, 1] = Inr [0, 1]"
  using fft_xcorr_list [of "[1]" "[0, 1]" 1]
  by (simp add: upt_small replicate_small)

lemma analyze_ones:
  "analyze_correlation user_settings [1, 1, 1] [1, 1, 1] =
     Inr \<lparr>peak_index = 0, lag_samples = - 2, peak_value = 3,
          norm_peak = 3 / (sqrt (3 * (3 + 1 / 10 ^ 12)) + 1 / 10 ^ 24),
          snr_db_est = 10 * log 10 (10 ^ 12), E_tx = 3\<rparr>"
  by (simp add: analyze_correlation_def slice_def user_settings_def Let_def xcorr_ones
        np_argmax_def rx_window_def snr_estimate_def np_subtract_def energy_def)

lemma analyze_swapped:
  "analyze_correlation user_settings [1, 2] [2, 1] =
     Inr \<lparr>peak_index = 0, lag_samples = - 1, peak_value = 4,
          norm_peak = 4 / (sqrt (5 * (5 + 1 / 10 ^ 12)) + 1 / 10 ^ 24),
          snr_db_est = 10 * log 10 (max (1 / 10 ^ 12) ((5 / 2) / (1 + 1 / 10 ^ 12))),
          E_tx = 5\<rparr>"
  by (simp add: analyze_correlation_def slice_def user_settings_def Let_def xcorr_swapped
        np_argmax_def rx_window_def snr_estimate_def np_subtract_def energy_def)

lemma analyze_single:
  "analyze_correlation user_settings [1] [0, 1] =
     Inr \<lparr>peak_index = 1, lag_samples = 1, peak_value = 1,
          norm_peak = 1 / (sqrt (1 * (1 + 1 / 10 ^ 12)) + 1 / 10 ^ 24),
          snr_db_est = 10 * log 10 (max (1 / 10 ^ 12) (1 / (0 + 1 / 10 ^ 12))),
          E_tx = 1\<rparr>"
  by (simp add: analyze_correlation_def slice_def user_settings_def Let_def xcorr_single
        np_argmax_def rx_window_def snr_estimate_def np_subtract_def energy_def)

section \<open>Claims about the analysis\<close>

lemma analyze_ones_delayed:
  "analyze_correlation user_settings [1, 1, 1] [0, 1, 1, 1] =
     Inr \<lparr>peak_index = 1, lag_samples = - 1, peak_value = 3,
          norm_peak = 3 / (sqrt (3 * (2 + 1 / 10 ^ 12)) + 1 / 10 ^ 24),
          snr_db_est = 10 * log 10 (max (1 / 10 ^ 12) ((2 / 3) / (1 / 3 + 1 / 10 ^ 12))),
          E_tx = 3\<rparr>"
  by (simp add: analyze_correlation_def slice_def user_settings_def Let_def xcorr_ones_delayed
        np_argmax_def rx_window_def snr_estimate_def np_subtract_def energy_def)

text \<open>
  Claim C8 at its failing input. The reference is \<open>[1, 1, 1]\<close> and the capture is the
  reference preceded by \<open>K\<close> zeros. The correlation \<open>ifft(B * conj(A))\<close> has its peak at
  index \<open>K\<close>, and line 134 subtracts \<open>len(tx) - 1 = 2\<close> from it: for \<open>K = 0\<close> the
  reported lag is \<open>-2\<close> and for \<open>K = 1\<close> it is \<open>-1\<close>, two samples away from \<open>K\<close> each time.
\<close>

theorem identity_case_lag:
  "analyze_correlation user_settings [1, 1, 1] (replicate 0 0 @ [1, 1, 1]) =
     Inr \<lparr>peak_index = 0, lag_samples = - 2, peak_value = 3,
          norm_peak = 3 / (sqrt (3 * (3 + 1 / 10 ^ 12)) + 1 / 10 ^ 24),
          snr_db_est = 10 * log 10 (10 ^ 12), E_tx = 3\<rparr> \<and>
   analyze_correlation user_settings [1, 1, 1] (replicate 1 0 @ [1, 1, 1]) =
     Inr \<lparr>peak_index = 1, lag_samples = - 1, peak_value = 3,
          norm_peak = 3 / (sqrt (3 * (2 + 1 / 10 ^ 12)) + 1 / 10 ^ 24),
          snr_db_est = 10 * log 10 (max (1 / 10 ^ 12) ((2 / 3) / (1 / 3 + 1 / 10 ^ 12))),
          E_tx = 3\<rparr>"
  using analyze_ones analyze_ones_delayed by simp

lemma log10_power: "log 10 ((10::real) ^ 12) = 12"
proof -
  have "log 10 ((10::real) ^ 12) = real (12::nat)" by (rule log_pow_cancel) simp_all
  then show ?thesis by simp
qed

lemma log10_tiny: "log 10 (1 / 10 ^ 12) = - 12"
  by (simp only: log_recip log10_power)

lemma log10_tiny_numeral: "log 10 (1 / 1000000000000) = - 12"
  using log10_tiny by simp

lemma fft_input_Nil: "j < n \<Longrightarrow> fft_input [] n ! j = 0"
  by (simp add: fft_input_def)

lemma fft_xcorr_zero:
  assumes e: "a = [] \<or> b = []" and two: "2 \<le> length a + length b"
  shows "fft_xcorr a b = Inr (replicate (length a + length b - 1) 0)"
proof -
  define n :: nat where "n = 2 ^ nat \<lceil>log 2 (real (length a + length b - 1))\<rceil>"
  have n0: "0 < n" by (simp add: n_def)
  from fft_xcorr_nth [OF two] obtain corr where
    c: "fft_xcorr a b = Inr corr" and l: "length corr = length a + length b - 1"
    and v: "\<forall>k < length a + length b - 1. corr ! k =
              (\<Sum>j<n. cnj (fft_input a n ! j) * fft_input b n ! ((j + k) mod n))"
    unfolding n_def by blast
  have "corr ! k = 0" if "k < length a + length b - 1" for k
  proof -
    have "(\<Sum>j<n. cnj (fft_input a n ! j) * fft_input b n ! ((j + k) mod n)) = (\<Sum>j<n. 0)"
      using e n0 by (intro sum.cong refl) (auto simp: fft_input_Nil)
    then show ?thesis using v that by simp
  qed
  then have "corr = replicate (length a + length b - 1) 0"
    using l by (intro nth_equalityI) simp_all
  then show ?thesis using c by simp
qed

lemma argmax_scan_flat: "argmax_scan (replicate k v) i best v = best"
  by (induction k arbitrary: i) simp_all

lemma np_argmax_flat: "0 < m \<Longrightarrow> np_argmax (replicate m v) = Inr 0"
  by (cases m) (simp_all add: np_argmax_def argmax_scan_flat)

lemma snr_estimate_Nil: "snr_estimate tx [] = Inr (- 120)"
  by (simp add: snr_estimate_def np_subtract_def slice_def energy_def Let_def log10_tiny_numeral)

lemma rx_window_degenerate: "tx = [] \<or> rx = [] \<Longrightarrow> rx_window tx rx lag = []"
  by (auto simp: rx_window_eq)

text \<open>
  Claim C4, as the code has it. \<open>analyze_correlation\<close> has no guard for empty buffers.
  When the two truncated buffers hold no sample it raises \<open>ValueError\<close>, and
  \<open>OverflowError\<close> when they hold one sample together. When one of them is empty and
  the other holds at least two samples it returns peak index 0, peak value 0,
  normalized peak 0, an estimated SNR of \<open>-120\<close> dB, the energy of the reference, and the
  lag \<open>1 - len(tx)\<close>. An empty capture is reported by \<open>main\<close> without calling the
  analysis.
\<close>

theorem degenerate_analysis:
  "(length (take (TX_REF_SAMPLES cfg) tx_samples) +
      length (take (CORR_SEARCH_SAMPLES cfg) rx_samples) = 0 \<longrightarrow>
        analyze_correlation cfg tx_samples rx_samples = Inl ValueError) \<and>
   (length (take (TX_REF_SAMPLES cfg) tx_samples) +
      length (take (CORR_SEARCH_SAMPLES cfg) rx_samples) = 1 \<longrightarrow>
        analyze_correlation cfg tx_samples rx_samples = Inl OverflowError) \<and>
   ((take (TX_REF_SAMPLES cfg) tx_samples = [] \<or> take (CORR_SEARCH_SAMPLES cfg) rx_samples = []) \<and>
    2 \<le> length (take (TX_REF_SAMPLES cfg) tx_samples) +
          length (take (CORR_SEARCH_SAMPLES cfg) rx_samples) \<longrightarrow>
        analyze_correlation cfg tx_samples rx_samples =
          Inr \<lparr>peak_index = 0,
               lag_samples = 1 - int (length (take (TX_REF_SAMPLES cfg) tx_samples)),
               peak_value = 0, norm_peak = 0, snr_db_est = - 120,
               E_tx = energy (take (TX_REF_SAMPLES cfg) tx_samples)\<rparr>) \<and>
   main_report cfg iq_data [] = Inr No_signal_captured"
proof -
  define tx where "tx = take (TX_REF_SAMPLES cfg) tx_samples"
  define rx where "rx = take (CORR_SEARCH_SAMPLES cfg) rx_samples"
  have un: "analyze_correlation cfg tx_samples rx_samples =
      (case fft_xcorr tx rx of Inl e \<Rightarrow> Inl e
       | Inr corr \<Rightarrow>
           (case np_argmax (map cmod corr) of Inl e \<Rightarrow> Inl e
            | Inr p \<Rightarrow>
                (case snr_estimate tx (rx_window tx rx (int p - (int (length tx) - 1))) of
                   Inl e \<Rightarrow> Inl e
                 | Inr v \<Rightarrow>
                     Inr \<lparr>peak_index = int p, lag_samples = int p - (int (length tx) - 1),
                          peak_value = map cmod corr ! p,
                          norm_peak = map cmod corr ! p /
                            (sqrt (energy tx *
                               (energy (rx_window tx rx (int p - (int (length tx) - 1))) + 1 / 10 ^ 12))
                             + 1 / 10 ^ 24),
                          snr_db_est = v, E_tx = energy tx\<rparr>)))"
    unfolding analyze_correlation_def slice0 Let_def tx_def rx_def ..
  have 0: "length tx + length rx = 0 \<longrightarrow> analyze_correlation cfg tx_samples rx_samples = Inl ValueError"
    unfolding un by (simp add: fft_xcorr_small)
  have 1: "length tx + length rx = 1 \<longrightarrow> analyze_correlation cfg tx_samples rx_samples = Inl OverflowError"
    unfolding un by (simp add: fft_xcorr_small)
  have 2: "(tx = [] \<or> rx = []) \<and> 2 \<le> length tx + length rx \<longrightarrow>
        analyze_correlation cfg tx_samples rx_samples =
          Inr \<lparr>peak_index = 0, lag_samples = 1 - int (length tx),
               peak_value = 0, norm_peak = 0, snr_db_est = - 120, E_tx = energy tx\<rparr>"
  proof
    assume a: "(tx = [] \<or> rx = []) \<and> 2 \<le> length tx + length rx"
    then have z: "fft_xcorr tx rx = Inr (replicate (length tx + length rx - 1) 0)"
      by (simp add: fft_xcorr_zero)
    have m: "0 < length tx + length rx - 1" using a by linarith
    have g: "np_argmax (replicate (length tx + length rx - 1) (0::real)) = Inr 0"
      by (rule np_argmax_flat [OF m])
    have w: "rx_window tx rx lag = []" for lag using a by (simp add: rx_window_degenerate)
    show "analyze_correlation cfg tx_samples rx_samples =
          Inr \<lparr>peak_index = 0, lag_samples = 1 - int (length tx),
               peak_value = 0, norm_peak = 0, snr_db_est = - 120, E_tx = energy tx\<rparr>"
      using m unfolding un z sum.case map_replicate norm_zero g
      by (simp add: w snr_estimate_Nil)
  qed
  have 3: "main_report cfg iq_data [] = Inr No_signal_captured"
    by (simp add: main_report_def)
  from 0 1 2 3 show ?thesis unfolding tx_def rx_def by blast
qed

text \<open>Claim C4 at an empty reference with two captured samples, and at a reference of
  two samples with an empty capture.\<close>

theorem degenerate_analysis_witness:
  "analyze_correlation user_settings [] [1, 2] =
     Inr \<lparr>peak_index = 0, lag_samples = 1, peak_value = 0, norm_peak = 0,
          snr_db_est = - 120, E_tx = 0\<rparr> \<and>
   analyze_correlation user_settings [1, 2] [] =
     Inr \<lparr>peak_index = 0, lag_samples = - 1, peak_value = 0, norm_peak = 0,
          snr_db_est = - 120, E_tx = 5\<rparr> \<and>
   main_report user_settings [1] [] = Inr No_signal_captured"
  using degenerate_analysis [of user_settings "[]" "[1, 2]" "[1]"]
    degenerate_analysis [of user_settings "[1, 2]" "[]" "[1]"]
  by (simp add: user_settings_def energy_def)

text \<open>
  Claim C4 as stated fails: with an empty truncated buffer and at most one sample in
  the other, line 118 raises. The first case is reached from \<open>main\<close> with an empty
  transmit file and a capture of one sample.
\<close>

theorem degenerate_analysis_counterexample:
  "analyze_correlation user_settings [] [1] = Inl OverflowError \<and>
   analyze_correlation user_settings [1] [] = Inl OverflowError \<and>
   analyze_correlation user_settings [] [] = Inl ValueError \<and>
   main_report user_settings [] [1] = Inl OverflowError"
  by (simp add: main_report_def analyze_correlation_def slice_def fft_xcorr_def Let_def
        user_settings_def)

text \<open>
  Claim C1. For a non-empty truncated reference \<open>tx\<close> and a non-empty truncated capture
  \<open>rx\<close>, with \<open>m = len(tx) + len(rx) - 1\<close> and \<open>n\<close> the transform length of line 118:
  \<open>n\<close> is the least power of two that is at least \<open>m\<close>; both inputs are zero-padded to
  \<open>n\<close> samples; the correlation is the first \<open>m\<close> samples of the inverse transform of the
  transform of \<open>rx\<close> times the conjugate of the transform of \<open>tx\<close>, and its entry \<open>k\<close> is
  the correlation sum of \<open>tx\<close> against the padded \<open>rx\<close> shifted cyclically by \<open>k\<close>; the
  peak index is the first index of largest magnitude in it, the peak value is that
  magnitude, and the lag is the peak index minus \<open>len(tx) - 1\<close>.
\<close>

theorem xcorr_peak_and_lag:
  fixes cfg :: settings and tx_samples rx_samples :: "complex list"
  defines "tx \<equiv> take (TX_REF_SAMPLES cfg) tx_samples"
    and "rx \<equiv> take (CORR_SEARCH_SAMPLES cfg) rx_samples"
  defines "m \<equiv> length tx + length rx - 1"
  defines "n \<equiv> (2::nat) ^ nat \<lceil>log 2 (real m)\<rceil>"
  assumes tx: "tx \<noteq> []" and rx: "rx \<noteq> []"
  shows "\<exists>corr r.
     fft_xcorr tx rx = Inr corr \<and>
     analyze_correlation cfg tx_samples rx_samples = Inr r \<and>
     m \<le> n \<and> (\<forall>k. m \<le> 2 ^ k \<longrightarrow> n \<le> 2 ^ k) \<and>
     fft_input tx n = tx @ replicate (n - length tx) 0 \<and>
     fft_input rx n = rx @ replicate (n - length rx) 0 \<and>
     corr = take m (np_ifft (map2 (\<lambda>y x. y * cnj x) (np_fft rx n) (np_fft tx n))) \<and>
     length corr = m \<and>
     (\<forall>k < m. corr ! k =
        (\<Sum>j < length tx. cnj (tx ! j) * (rx @ replicate (n - length rx) 0) ! ((j + k) mod n))) \<and>
     0 \<le> peak_index r \<and> nat (peak_index r) < m \<and>
     (\<forall>i < m. cmod (corr ! i) \<le> cmod (corr ! nat (peak_index r))) \<and>
     (\<forall>i < nat (peak_index r). cmod (corr ! i) < cmod (corr ! nat (peak_index r))) \<and>
     peak_value r = cmod (corr ! nat (peak_index r)) \<and>
     lag_samples r = peak_index r - (int (length tx) - 1)"
proof -
  have la: "0 < length tx" and lb: "0 < length rx" using tx rx by simp_all
  then have two: "2 \<le> length tx + length rx" by linarith
  have m1: "1 \<le> m" using two by (simp add: m_def)
  have mn: "m \<le> n" unfolding n_def by (rule fft_len_ge [OF m1])
  have least: "\<forall>k. m \<le> 2 ^ k \<longrightarrow> n \<le> 2 ^ k"
    unfolding n_def using fft_len_least [OF m1] by blast
  have an: "length tx \<le> n" and bn: "length rx \<le> n"
    using mn la lb unfolding m_def by linarith+
  from fft_xcorr_direct [OF tx rx] obtain corr where
    c: "fft_xcorr tx rx = Inr corr" and l: "length corr = m"
    and v: "\<forall>k < m. corr ! k =
        (\<Sum>j < length tx. cnj (tx ! j) * (rx @ replicate (n - length rx) 0) ! ((j + k) mod n))"
    unfolding m_def [symmetric] n_def [symmetric] by blast
  have t: "corr = take m (np_ifft (map2 (\<lambda>y x. y * cnj x) (np_fft rx n) (np_fft tx n)))"
    using c fft_xcorr_Inr [OF two] unfolding m_def [symmetric] n_def [symmetric] by simp
  have ne: "map cmod corr \<noteq> []" using l m1 by auto
  from np_argmax_spec [OF ne] obtain p where
    p: "np_argmax (map cmod corr) = Inr p" and pl: "p < length corr"
    and pmax: "\<forall>j < length corr. cmod (corr ! j) \<le> cmod (corr ! p)"
    and pfirst: "\<forall>j < p. cmod (corr ! j) < cmod (corr ! p)"
    by auto
  from analyze_unfold [of cfg tx_samples rx_samples] two obtain corr' p' r where
    c': "fft_xcorr tx rx = Inr corr'" and p': "np_argmax (map cmod corr') = Inr p'"
    and r: "analyze_correlation cfg tx_samples rx_samples = Inr r"
    and ri: "peak_index r = int p'" and rv: "peak_value r = cmod (corr' ! p')"
    and rl: "lag_samples r = int p' - (int (length tx) - 1)"
    unfolding tx_def rx_def by force
  have cc: "corr' = corr" using c c' by simp
  have pp: "p' = p" using p p' unfolding cc by simp
  show ?thesis
    using c r mn least fft_input_long [OF an] fft_input_long [OF bn] t l v pl pmax pfirst
      ri rv rl unfolding cc pp by (intro exI [of _ corr] exI [of _ r]) simp
qed

text \<open>Claim C1 at the reference \<open>[1, 2]\<close> and the capture \<open>[2, 1]\<close>.\<close>

theorem xcorr_peak_and_lag_witness:
  "fft_xcorr [1, 2] [2, 1] = Inr [4, 1, 0] \<and>
   (\<exists>r. analyze_correlation user_settings [1, 2] [2, 1] = Inr r \<and> peak_index r = 0 \<and>
        peak_value r = 4 \<and>
        lag_samples r = peak_index r - (int (length [1, 2 :: complex]) - 1) \<and>
        lag_samples r = - 1)"
proof -
  have t: "take (TX_REF_SAMPLES user_settings) [1, 2 :: complex] = [1, 2]"
    "take (CORR_SEARCH_SAMPLES user_settings) [2, 1 :: complex] = [2, 1]"
    by (simp_all add: user_settings_def)
  from xcorr_peak_and_lag [of user_settings "[1, 2]" "[2, 1]"]
  obtain corr r where c: "fft_xcorr [1, 2] [2, 1] = Inr corr"
    and r: "analyze_correlation user_settings [1, 2] [2, 1] = Inr r"
    and l: "lag_samples r = peak_index r - (int (length [1, 2 :: complex]) - 1)"
    unfolding t by auto
  from r have "peak_index r = 0" "peak_value r = 4" "lag_samples r = - 1"
    unfolding analyze_swapped by auto
  with c r l show ?thesis unfolding xcorr_swapped by auto
qed

section \<open>The SNR estimate\<close>

lemma filter_upt_less: "filter (\<lambda>i. i < c) [0 ..< n] = [0 ..< min n c]"
proof (induction n)
  case 0
  show ?case by simp
next
  case (Suc n)
  show ?case
  proof (cases "n < c")
    case True
    then show ?thesis using Suc by (simp add: min_def)
  next
    case False
    then have "min n c = c" "min (Suc n) c = c" by simp_all
    then show ?thesis using Suc False by simp
  qed
qed

lemma lag_aligned_pairs_nonneg:
  "lag_aligned_pairs tx rx (int l) = zip (take (length tx) (drop l rx)) tx"
proof -
  have f: "(\<lambda>i. 0 \<le> int l + int i \<and> int l + int i < int (length rx)) = (\<lambda>i. i < length rx - l)"
    by (rule ext) linarith
  define k where "k = min (length tx) (length rx - l)"
  have k: "k \<le> length tx" "k \<le> length rx - l" by (simp_all add: k_def)
  have lz: "length (zip (take (length tx) (drop l rx)) tx) = k" by (simp add: k_def min_def)
  have "map (\<lambda>i. (rx ! nat (int l + int i), tx ! i)) [0 ..< k] =
        zip (take (length tx) (drop l rx)) tx"
  proof (rule nth_equalityI)
    show "length (map (\<lambda>i. (rx ! nat (int l + int i), tx ! i)) [0 ..< k]) =
          length (zip (take (length tx) (drop l rx)) tx)" unfolding lz by simp
    fix i
    assume "i < length (map (\<lambda>i. (rx ! nat (int l + int i), tx ! i)) [0 ..< k])"
    then have i: "i < k" by simp
    then have "i < length tx" "i < length rx - l" using k by simp_all
    then show "map (\<lambda>i. (rx ! nat (int l + int i), tx ! i)) [0 ..< k] ! i =
               zip (take (length tx) (drop l rx)) tx ! i"
      using i by (simp add: nat_add_distrib)
  qed
  then show ?thesis unfolding lag_aligned_pairs_def f filter_upt_less k_def .
qed

lemma zip_take_right: "length xs \<le> length ys \<Longrightarrow> zip xs (take (length xs) ys) = zip xs ys"
  by (rule nth_equalityI) simp_all

lemma snr_estimate_aligned:
  assumes "0 \<le> lag"
  shows "snr_estimate tx (rx_window tx rx lag) = Inr (lag_aligned_snr tx rx lag)"
proof -
  define l where "l = nat lag"
  define W where "W = take (length tx) (drop l rx)"
  have lag: "lag = int l" using assms by (simp add: l_def)
  have w: "rx_window tx rx lag = W" by (simp add: rx_window_eq W_def lag)
  have lw: "length W \<le> length tx" by (simp add: W_def)
  have p: "lag_aligned_pairs tx rx lag = zip W tx"
    unfolding lag W_def by (rule lag_aligned_pairs_nonneg)
  have f: "map fst (zip W tx) = W" using lw by (simp add: map_fst_zip_take min_def)
  have r: "map2 (\<lambda>x y. x - y) W (take (length W) tx) = map (\<lambda>(c, r). c - r) (zip W tx)"
    by (simp add: zip_take_right [OF lw])
  show ?thesis
    unfolding w snr_estimate_Inr [OF lw] lag_aligned_snr_def p Let_def f r
    using lw by (simp add: min_def)
qed

lemma analyze_small:
  assumes "length (take (TX_REF_SAMPLES cfg) tx_samples) +
           length (take (CORR_SEARCH_SAMPLES cfg) rx_samples) < 2"
  shows "\<exists>e. analyze_correlation cfg tx_samples rx_samples = Inl e"
proof -
  from assms have "length (take (TX_REF_SAMPLES cfg) tx_samples) +
           length (take (CORR_SEARCH_SAMPLES cfg) rx_samples) = 0 \<or>
     length (take (TX_REF_SAMPLES cfg) tx_samples) +
           length (take (CORR_SEARCH_SAMPLES cfg) rx_samples) = 1" by linarith
  then have "\<exists>e. fft_xcorr (take (TX_REF_SAMPLES cfg) tx_samples)
                   (take (CORR_SEARCH_SAMPLES cfg) rx_samples) = Inl e"
    using fft_xcorr_small by blast
  then show ?thesis
    unfolding analyze_correlation_def slice0 Let_def by auto
qed

text \<open>
  Claim C6, as the code has it. Whenever the analysis returns, the SNR estimate is
  made on the captured window that starts at \<open>max(0, lag)\<close> and holds at most
  \<open>len(tx)\<close> samples: the residual is that window minus the equally long prefix of the
  reference, the two powers are the mean squared magnitudes of the window and of the
  residual, and the estimate is \<open>10 * log10\<close> of their ratio with \<open>1e-12\<close> added to the
  noise power and the argument floored at \<open>1e-12\<close>. For a lag that is not negative this
  is the estimate with the window aligned at the lag, as the specification words it;
  for a negative lag the window starts at index 0.
\<close>

theorem snr_window:
  fixes cfg :: settings and tx_samples rx_samples :: "complex list"
  defines "tx \<equiv> take (TX_REF_SAMPLES cfg) tx_samples"
    and "rx \<equiv> take (CORR_SEARCH_SAMPLES cfg) rx_samples"
  assumes r: "analyze_correlation cfg tx_samples rx_samples = Inr r"
  shows "length (take (length tx) (drop (nat (max 0 (lag_samples r))) rx)) \<le> length tx \<and>
     snr_db_est r =
       10 * log 10 (max (1 / 10 ^ 12)
         ((energy (take (length tx) (drop (nat (max 0 (lag_samples r))) rx)) /
             real (max 1 (length (take (length tx) (drop (nat (max 0 (lag_samples r))) rx))))) /
          (energy (map2 (\<lambda>x y. x - y) (take (length tx) (drop (nat (max 0 (lag_samples r))) rx))
                     (take (length (take (length tx) (drop (nat (max 0 (lag_samples r))) rx))) tx)) /
             real (max 1 (length (take (length tx) (drop (nat (max 0 (lag_samples r))) rx))))
           + 1 / 10 ^ 12))) \<and>
     (0 \<le> lag_samples r \<longrightarrow> snr_db_est r = lag_aligned_snr tx rx (lag_samples r)) \<and>
     (lag_samples r < 0 \<longrightarrow> nat (max 0 (lag_samples r)) = 0)"
proof -
  have two: "2 \<le> length tx + length rx"
  proof (rule ccontr)
    assume "\<not> 2 \<le> length tx + length rx"
    then have "length tx + length rx < 2" by simp
    from analyze_small [of cfg tx_samples rx_samples] this r show False
      unfolding tx_def rx_def by auto
  qed
  from analyze_unfold [of cfg tx_samples rx_samples] two r obtain p v where
    v: "snr_estimate tx (rx_window tx rx (int p - (int (length tx) - 1))) = Inr v"
    and rl: "lag_samples r = int p - (int (length tx) - 1)" and rs: "snr_db_est r = v"
    unfolding tx_def rx_def by force
  define W where "W = take (length tx) (drop (nat (max 0 (lag_samples r))) rx)"
  have w: "rx_window tx rx (lag_samples r) = W" by (simp add: rx_window_eq W_def)
  have lw: "length W \<le> length tx" by (simp add: W_def)
  have s: "snr_db_est r =
       10 * log 10 (max (1 / 10 ^ 12)
         ((energy W / real (max 1 (length W))) /
          (energy (map2 (\<lambda>x y. x - y) W (take (length W) tx)) / real (max 1 (length W))
           + 1 / 10 ^ 12)))"
    using v snr_estimate_Inr [OF lw] unfolding rl [symmetric] w rs by simp
  have a: "0 \<le> lag_samples r \<longrightarrow> snr_db_est r = lag_aligned_snr tx rx (lag_samples r)"
    using v snr_estimate_aligned [of "lag_samples r" tx rx] unfolding rl [symmetric] rs by auto
  have n: "lag_samples r < 0 \<longrightarrow> nat (max 0 (lag_samples r)) = 0" by simp
  from lw s a n show ?thesis unfolding W_def by blast
qed

lemma log10_power_numeral: "log 10 1000000000000 = 12"
  using log10_power by simp

text \<open>Claim C6 at the reference \<open>[1]\<close> and the capture \<open>[0, 1]\<close>: the lag is 1 and the
  estimate is 120 dB.\<close>

theorem snr_window_witness:
  "\<exists>r. analyze_correlation user_settings [1] [0, 1] = Inr r \<and> lag_samples r = 1 \<and>
        snr_db_est r = lag_aligned_snr [1] [0, 1] (lag_samples r) \<and> snr_db_est r = 120"
proof -
  define r where "r = \<lparr>peak_index = 1, lag_samples = 1, peak_value = 1,
          norm_peak = 1 / (sqrt (1 * (1 + 1 / 10 ^ 12)) + 1 / 10 ^ 24),
          snr_db_est = 10 * log 10 (max (1 / 10 ^ 12) (1 / (0 + 1 / 10 ^ 12))),
          E_tx = 1\<rparr>"
  have a: "analyze_correlation user_settings [1] [0, 1] = Inr r"
    unfolding r_def by (rule analyze_single)
  have t: "take (TX_REF_SAMPLES user_settings) [1 :: complex] = [1]"
    "take (CORR_SEARCH_SAMPLES user_settings) [0, 1 :: complex] = [0, 1]"
    by (simp_all add: user_settings_def)
  have l: "lag_samples r = 1" by (simp add: r_def)
  from snr_window [OF a] have "0 \<le> lag_samples r \<longrightarrow>
      snr_db_est r = lag_aligned_snr [1] [0, 1] (lag_samples r)"
    unfolding t by blast
  with l have s: "snr_db_est r = lag_aligned_snr [1] [0, 1] (lag_samples r)" by simp
  have v: "snr_db_est r = 120" by (simp add: r_def log10_power_numeral)
  from a l s v show ?thesis by blast
qed

text \<open>
  Claim C6 as stated fails at a negative lag. For the reference \<open>[1, 2]\<close> and the
  capture \<open>[2, 1]\<close> the estimated lag is \<open>-1\<close>; the code takes the window \<open>[2, 1]\<close> from
  index 0 and subtracts \<open>[1, 2]\<close>, while the window aligned at \<open>-1\<close> compares the
  captured sample 0 with the reference sample 1 only, and the two estimates differ.
\<close>

theorem snr_window_counterexample:
  "analyze_correlation user_settings [1, 2] [2, 1] =
     Inr \<lparr>peak_index = 0, lag_samples = - 1, peak_value = 4,
          norm_peak = 4 / (sqrt (5 * (5 + 1 / 10 ^ 12)) + 1 / 10 ^ 24),
          snr_db_est = 10 * log 10 (max (1 / 10 ^ 12) ((5 / 2) / (1 + 1 / 10 ^ 12))),
          E_tx = 5\<rparr> \<and>
   rx_window [1, 2] [2, 1] (- 1) = [2, 1] \<and>
   lag_aligned_pairs [1, 2] [2, 1] (- 1) = [(2, 2)] \<and>
   lag_aligned_snr [1, 2] [2, 1] (- 1) = 10 * log 10 (max (1 / 10 ^ 12) (4 / (0 + 1 / 10 ^ 12))) \<and>
   10 * log 10 (max (1 / 10 ^ 12) ((5 / 2) / (1 + 1 / 10 ^ 12))) \<noteq>
     lag_aligned_snr [1, 2] [2, 1] (- 1)"
proof -
  have p: "lag_aligned_pairs [1, 2] [2, 1] (- 1) = [(2, 2)]"
    by (simp add: lag_aligned_pairs_def upt_small)
  have w: "rx_window [1, 2] [2, 1] (- 1) = [2, 1]"
    by (simp add: rx_window_eq)
  have s: "lag_aligned_snr [1, 2] [2, 1] (- 1) =
      10 * log 10 (max (1 / 10 ^ 12) (4 / (0 + 1 / 10 ^ 12)))"
    unfolding lag_aligned_snr_def p Let_def by (simp add: energy_def)
  define x where "x = log 10 (max (1 / 10 ^ 12) ((5 / 2) / (1 + 1 / 10 ^ 12)))"
  define y where "y = log 10 (max (1 / 10 ^ 12) (4 / (0 + 1 / 10 ^ 12)))"
  have "x < y" unfolding x_def y_def
    by (subst log_less_cancel_iff) (simp_all add: max_def)
  then have "10 * x \<noteq> 10 * y" by linarith
  then have n: "10 * log 10 (max (1 / 10 ^ 12) ((5 / 2) / (1 + 1 / 10 ^ 12))) \<noteq>
     lag_aligned_snr [1, 2] [2, 1] (- 1)"
    unfolding s x_def y_def .
  from analyze_swapped w p s n show ?thesis by blast
qed

end
